theory Spec2Isabelle
  imports Main
begin

section \<open>The license header policy of conform (internal/policy/license/license.go)\<close>

text \<open>
  The policy walks the tree under the working directory and reports every checked file
  that does not start with the configured header. The Go closure passed to
  \<^verbatim>\<open>filepath.Walk\<close> appends to \<^verbatim>\<open>check.errors\<close>; here the list is threaded through
  the walk as explicit state, together with two traces that the Go code leaves implicit:
  the paths handed to \<^verbatim>\<open>ioutil.ReadFile\<close> and the paths the closure was called on.
\<close>

subsection \<open>Byte strings\<close>

text \<open>
  Go strings and byte slices are sequences of bytes, as \<^typ>\<open>string\<close> is.
  \<^verbatim>\<open>strings.HasSuffix(s, suffix)\<close> is
  \<^verbatim>\<open>len(s) >= len(suffix) && s[len(s)-len(suffix):] == suffix\<close> and
  \<^verbatim>\<open>bytes.HasPrefix(s, prefix)\<close> is
  \<^verbatim>\<open>len(s) >= len(prefix) && Equal(s[0:len(prefix)], prefix)\<close>.
\<close>

definition HasSuffix :: "string \<Rightarrow> string \<Rightarrow> bool" where
  "HasSuffix s suf \<longleftrightarrow> length suf \<le> length s \<and> drop (length s - length suf) s = suf"

definition HasPrefix :: "string \<Rightarrow> string \<Rightarrow> bool" where
  "HasPrefix s pre \<longleftrightarrow> length pre \<le> length s \<and> take (length pre) s = pre"

subsection \<open>Configuration and errors\<close>

record License =
  SkipPaths :: "string list"
  IncludeSuffixes :: "string list"
  ExcludeSuffixes :: "string list"
  Header :: string

text \<open>
  An error of the operating system (a failed \<^verbatim>\<open>lstat\<close>, \<^verbatim>\<open>readdir\<close> or read), with the
  text that \<^verbatim>\<open>%v\<close> prints for it.
\<close>

datatype os_error = OsError string

fun error_text :: "os_error \<Rightarrow> string" where
  "error_text (OsError t) = t"

text \<open>
  The entries of \<^verbatim>\<open>check.errors\<close>. \<open>Underlying t\<close> is an error value made by another
  package and appended as it is (line 84 appends \<^verbatim>\<open>e.Underlying()\<close>); \<open>Fundamental m\<close>
  is an error made here by \<^verbatim>\<open>errors.New\<close> or \<^verbatim>\<open>errors.Errorf\<close> with message \<open>m\<close>.
\<close>

datatype goerror = Underlying string | Fundamental string

datatype HeaderCheck = HeaderCheck (Errors: "goerror list")

subsection \<open>The pattern matcher (go-gitignore, an external library)\<close>

text \<open>
  \<^verbatim>\<open>gitignore.New(&buf, ".", handler)\<close> parses the buffer at once, calls the handler with
  every parse error in order and returns the matcher. The library is not part of the
  repository: it is a parameter of the model, a function from the buffer to the errors it
  reports (their underlying texts) and to the test \<^verbatim>\<open>Relative(path, isdir) != nil\<close>.
\<close>

record gitignore =
  reported :: "string list"
  Relative :: "string \<Rightarrow> bool \<Rightarrow> bool"

text \<open>Lines 75 to 79: every pattern followed by a newline.\<close>

definition pattern_buffer :: "string list \<Rightarrow> string" where
  "pattern_buffer patterns = concat (map (\<lambda>pattern. pattern @ [CHR 0x0A]) patterns)"

subsection \<open>The file system\<close>

text \<open>
  What \<^verbatim>\<open>filepath.Walk\<close> and \<^verbatim>\<open>ioutil.ReadFile\<close> observe of the tree: a regular file has
  a name and the result of reading it; another non-directory (symbolic link, device,
  socket, pipe) has a name only; a directory has a name, the error of reading its entries
  if that fails, and its entries in the order \<^verbatim>\<open>readDirNames\<close> returns them; an entry whose
  \<^verbatim>\<open>lstat\<close> fails has a name and the error.
\<close>

datatype node =
    RegularFile string "os_error + string"
  | OtherFile string
  | Directory string "os_error option" "node list"
  | LstatFails string os_error

fun info_Name :: "node \<Rightarrow> string" where
  "info_Name (RegularFile name _) = name"
| "info_Name (OtherFile name) = name"
| "info_Name (Directory name _ _) = name"
| "info_Name (LstatFails name _) = name"

fun IsDir :: "node \<Rightarrow> bool" where
  "IsDir (Directory _ _ _) = True"
| "IsDir _ = False"

fun IsRegular :: "node \<Rightarrow> bool" where
  "IsRegular (RegularFile _ _) = True"
| "IsRegular _ = False"

fun ReadFile :: "node \<Rightarrow> os_error + string" where
  "ReadFile (RegularFile _ r) = r"
| "ReadFile (OtherFile _) = Inl (OsError ''read: not a regular file'')"
| "ReadFile (Directory _ _ _) = Inl (OsError ''read: is a directory'')"
| "ReadFile (LstatFails _ e) = Inl e"

fun lstat :: "node \<Rightarrow> os_error option" where
  "lstat (LstatFails _ e) = Some e"
| "lstat _ = None"

text \<open>
  \<^verbatim>\<open>filepath.Join(path, name)\<close> where \<open>path\<close> is the root \<^verbatim>\<open>.\<close> or a clean relative path
  below it and \<open>name\<close> is the name of a directory entry.
\<close>

definition Join :: "string \<Rightarrow> string \<Rightarrow> string" where
  "Join path name = (if path = ''.'' then name else path @ ''/'' @ name)"

subsection \<open>The state of one run\<close>

record scan =
  errors :: "goerror list"
  reads :: "string list"
  visited :: "string list"

text \<open>What the walk function returns: \<^verbatim>\<open>nil\<close>, \<^verbatim>\<open>filepath.SkipDir\<close> or another error.\<close>

datatype walk_result = Ok | SkipDir | Failed os_error

subsection \<open>The walk function (lines 96 to 138)\<close>

text \<open>Lines 114 to 118: the first exclude suffix that the name ends with returns.\<close>

fun excluded :: "string list \<Rightarrow> string \<Rightarrow> bool" where
  "excluded [] name = False"
| "excluded (suffix # rest) name = (if HasSuffix name suffix then True else excluded rest name)"

text \<open>
  Lines 121 to 135: for every include suffix that the name ends with, the file is read;
  a failed read appends an error and returns, a content that starts with the header
  continues with the next suffix, any other content appends an error and goes on with
  the next suffix as well.
\<close>

fun check_included :: "string \<Rightarrow> string \<Rightarrow> node \<Rightarrow> string list \<Rightarrow> scan \<Rightarrow> scan" where
  "check_included val path info [] st = st"
| "check_included val path info (suffix # rest) st =
     (if HasSuffix (info_Name info) suffix then
        (let st1 = st\<lparr>reads := reads st @ [path]\<rparr> in
         case ReadFile info of
           Inl e \<Rightarrow> st1\<lparr>errors := errors st1 @ [Fundamental (''Failed to open '' @ path)]\<rparr>
         | Inr contents \<Rightarrow>
             if HasPrefix contents val then check_included val path info rest st1
             else check_included val path info rest
                    (st1\<lparr>errors := errors st1 @
                       [Fundamental (''File '' @ path @ '' does not contain a license header'')]\<rparr>))
      else check_included val path info rest st)"

text \<open>
  Lines 101 to 110. The result is \<open>Some r\<close> when the closure returns \<open>r\<close> here and \<open>None\<close>
  when control leaves the block. The inner \<^verbatim>\<open>return nil\<close> sits inside the block guarded
  by \<^verbatim>\<open>info.IsDir()\<close>, after a second test of \<^verbatim>\<open>info.IsDir()\<close> that returns.
\<close>

definition skip_block :: "(string \<Rightarrow> bool \<Rightarrow> bool) \<Rightarrow> string \<Rightarrow> node \<Rightarrow> walk_result option" where
  "skip_block matcher path info =
     (if matcher path (IsDir info) then
        (if IsDir info then
           (if IsDir info then Some SkipDir else Some Ok)
         else None)
      else None)"

text \<open>
  The closure itself. Its first line here records the call in the trace of visited
  paths; the rest follows the source: an error handed in is returned at once, then the
  block of lines 101 to 110, then the suffix loops for a regular file.
\<close>

definition walkFn ::
  "License \<Rightarrow> (string \<Rightarrow> bool \<Rightarrow> bool) \<Rightarrow> string \<Rightarrow> node \<Rightarrow> os_error option \<Rightarrow> scan
     \<Rightarrow> walk_result \<times> scan" where
  "walkFn l matcher path info err st0 =
     (let st = st0\<lparr>visited := visited st0 @ [path]\<rparr> in
      case err of
        Some e \<Rightarrow> (Failed e, st)
      | None \<Rightarrow>
          (case skip_block matcher path info of
             Some r \<Rightarrow> (r, st)
           | None \<Rightarrow>
               if IsRegular info then
                 (if excluded (ExcludeSuffixes l) (info_Name info) then (Ok, st)
                  else (Ok, check_included (Header l) path info (IncludeSuffixes l) st))
               else (Ok, st)))"

subsection \<open>filepath.Walk\<close>

text \<open>
  The standard library's walk, for a walk function \<open>fn\<close>. \<open>walk\<close> is Go's
  \<^verbatim>\<open>walk(path, info, walkFn)\<close>: a non-directory is given to \<open>fn\<close>; for a directory the
  entries are read first, \<open>fn\<close> is called with the error of that, and the walk goes into
  the entries only when both the reading and \<open>fn\<close> gave no error. \<open>walk_names\<close> is the
  loop over the entries: an entry whose \<^verbatim>\<open>lstat\<close> fails is given to \<open>fn\<close> with the
  error, and \<^verbatim>\<open>SkipDir\<close> from a directory entry goes on with the next entry.
  Go calls \<open>walk\<close> only on an entry whose \<^verbatim>\<open>lstat\<close> succeeded.
\<close>

fun walk ::
  "(string \<Rightarrow> node \<Rightarrow> os_error option \<Rightarrow> scan \<Rightarrow> walk_result \<times> scan)
     \<Rightarrow> string \<Rightarrow> node \<Rightarrow> scan \<Rightarrow> walk_result \<times> scan"
and walk_names ::
  "(string \<Rightarrow> node \<Rightarrow> os_error option \<Rightarrow> scan \<Rightarrow> walk_result \<times> scan)
     \<Rightarrow> string \<Rightarrow> node list \<Rightarrow> scan \<Rightarrow> walk_result \<times> scan"
where
  "walk fn path (Directory name rd entries) st =
     (let (err1, st1) = fn path (Directory name rd entries) rd st in
      if rd \<noteq> None \<or> err1 \<noteq> Ok then (err1, st1)
      else walk_names fn path entries st1)"
| "walk fn path (RegularFile name r) st = fn path (RegularFile name r) None st"
| "walk fn path (OtherFile name) st = fn path (OtherFile name) None st"
| "walk fn path (LstatFails name e) st = fn path (LstatFails name e) (Some e) st"
| "walk_names fn path [] st = (Ok, st)"
| "walk_names fn path (entry # rest) st =
     (let filename = Join path (info_Name entry) in
      case lstat entry of
        Some e \<Rightarrow>
          (let (err, st1) = fn filename entry (Some e) st in
           if err \<noteq> Ok \<and> err \<noteq> SkipDir then (err, st1)
           else walk_names fn path rest st1)
      | None \<Rightarrow>
          (let (err, st1) = walk fn filename entry st in
           if err \<noteq> Ok then
             (if \<not> IsDir entry \<or> err \<noteq> SkipDir then (err, st1)
              else walk_names fn path rest st1)
           else walk_names fn path rest st1))"

text \<open>
  \<^verbatim>\<open>filepath.Walk(root, fn)\<close>: the root is given to \<open>fn\<close> with the error when its
  \<^verbatim>\<open>lstat\<close> fails and walked otherwise; \<^verbatim>\<open>SkipDir\<close> at the top becomes \<^verbatim>\<open>nil\<close>.
\<close>

definition Walk ::
  "string \<Rightarrow> node \<Rightarrow> (string \<Rightarrow> node \<Rightarrow> os_error option \<Rightarrow> scan \<Rightarrow> walk_result \<times> scan)
     \<Rightarrow> scan \<Rightarrow> os_error option \<times> scan" where
  "Walk root info fn st =
     (let (err, st1) =
            (case lstat info of
               Some e \<Rightarrow> fn root info (Some e) st
             | None \<Rightarrow> walk fn root info st)
      in case err of
           Ok \<Rightarrow> (None, st1)
         | SkipDir \<Rightarrow> (None, st1)
         | Failed e \<Rightarrow> (Some e, st1))"

subsection \<open>ValidateLicenseHeader and Compliance\<close>

text \<open>
  \<open>run\<close> is \<^verbatim>\<open>ValidateLicenseHeader\<close> with the two traces kept: \<open>New\<close> is the pattern
  library and \<open>tree\<close> the entry at the working directory.
\<close>

definition run :: "License \<Rightarrow> (string \<Rightarrow> gitignore) \<Rightarrow> node \<Rightarrow> scan" where
  "run l New tree =
     (let buf = pattern_buffer (SkipPaths l);
          patternmatcher = New buf;
          check = \<lparr>errors = map Underlying (reported patternmatcher), reads = [], visited = []\<rparr>
      in if Header l = [] then
           check\<lparr>errors := errors check @ [Fundamental ''Header is not defined'']\<rparr>
         else
           (let (err, check1) = Walk ''.'' tree (walkFn l (Relative patternmatcher)) check in
            case err of
              None \<Rightarrow> check1
            | Some e \<Rightarrow>
                check1\<lparr>errors := errors check1 @
                  [Fundamental (''Failed to walk directory: '' @ error_text e)]\<rparr>))"

definition ValidateLicenseHeader :: "License \<Rightarrow> (string \<Rightarrow> gitignore) \<Rightarrow> node \<Rightarrow> HeaderCheck" where
  "ValidateLicenseHeader l New tree = HeaderCheck (errors (run l New tree))"

text \<open>
  Modelled from the spec: \<^verbatim>\<open>policy.Report\<close> and its \<^verbatim>\<open>AddCheck\<close> live in the package
  \<^verbatim>\<open>internal/policy\<close>, which is not among the sources; the report accumulates the checks
  added to it, in order.
\<close>

record Report =
  checks :: "HeaderCheck list"

definition AddCheck :: "Report \<Rightarrow> HeaderCheck \<Rightarrow> Report" where
  "AddCheck report c = report\<lparr>checks := checks report @ [c]\<rparr>"

text \<open>
  Lines 39 to 45. \<open>options\<close> is the pointer argument (\<open>None\<close> for \<^verbatim>\<open>nil\<close>), of a type
  the function never looks into; the second component is the returned error, \<open>None\<close>
  for \<^verbatim>\<open>nil\<close>.
\<close>

definition Compliance ::
  "License \<Rightarrow> 'options option \<Rightarrow> (string \<Rightarrow> gitignore) \<Rightarrow> node \<Rightarrow> Report \<times> goerror option" where
  "Compliance l options New tree =
     (let report = \<lparr>checks = []\<rparr>;
          report1 = AddCheck report (ValidateLicenseHeader l New tree)
      in (report1, None))"

subsection \<open>What the report may hold\<close>

text \<open>
  The two messages that name a file: the one of line 125 and the one of line 133.
\<close>

definition file_violation :: "string \<Rightarrow> goerror \<Rightarrow> bool" where
  "file_violation path e \<longleftrightarrow>
     e = Fundamental (''Failed to open '' @ path) \<or>
     e = Fundamental (''File '' @ path @ '' does not contain a license header'')"

text \<open>
  How the state may change while the walk runs: paths are added to the reads, and every
  error that was not there before is a message about a path that was read.
\<close>

definition grows :: "scan \<Rightarrow> scan \<Rightarrow> bool" where
  "grows st st' \<longleftrightarrow>
     set (reads st) \<subseteq> set (reads st') \<and>
     (\<forall>e \<in> set (errors st'). e \<in> set (errors st) \<or> (\<exists>p \<in> set (reads st'). file_violation p e))"

subsection \<open>The entries of a tree, and what a walk over them leaves behind\<close>

text \<open>
  Every entry of a tree with the path the walk gives it: the tree itself at \<open>path\<close>, and
  below a directory each entry at the path joined with its name.
\<close>

fun tree_paths :: "string \<Rightarrow> node \<Rightarrow> (string \<times> node) list"
and entry_paths :: "string \<Rightarrow> node list \<Rightarrow> (string \<times> node) list"
where
  "tree_paths path (Directory name rd entries) =
     (path, Directory name rd entries) # entry_paths path entries"
| "tree_paths path (RegularFile name r) = [(path, RegularFile name r)]"
| "tree_paths path (OtherFile name) = [(path, OtherFile name)]"
| "tree_paths path (LstatFails name e) = [(path, LstatFails name e)]"
| "entry_paths dir [] = []"
| "entry_paths dir (entry # rest) =
     tree_paths (Join dir (info_Name entry)) entry @ entry_paths dir rest"

text \<open>The call of \<^verbatim>\<open>filepath.Walk\<close> that a run makes (line 96), with its result.\<close>

definition walk_of_run :: "License \<Rightarrow> (string \<Rightarrow> gitignore) \<Rightarrow> node \<Rightarrow> os_error option \<times> scan" where
  "walk_of_run l New tree =
     Walk ''.'' tree (walkFn l (Relative (New (pattern_buffer (SkipPaths l)))))
       \<lparr>errors = map Underlying (reported (New (pattern_buffer (SkipPaths l)))),
        reads = [], visited = []\<rparr>"

text \<open>
  What the visit of entry \<open>n\<close> at path \<open>p\<close> leaves in the errors \<open>es\<close> appended by a
  walk and in the result \<open>r\<close> of that walk: an included, not excluded file whose read
  fails has its message in \<open>es\<close>; an entry whose \<^verbatim>\<open>lstat\<close> fails, or a directory whose
  entries cannot be read, makes the walk return that error.
\<close>

definition surfaced_by :: "License \<Rightarrow> string \<Rightarrow> node \<Rightarrow> goerror list \<Rightarrow> walk_result \<Rightarrow> bool" where
  "surfaced_by l p n es r \<longleftrightarrow>
     (\<forall>name e. n = RegularFile name (Inl e) \<and> \<not> excluded (ExcludeSuffixes l) name \<and>
                (\<exists>s \<in> set (IncludeSuffixes l). HasSuffix name s) \<longrightarrow>
          Fundamental (''Failed to open '' @ p) \<in> set es) \<and>
     (\<forall>name e. n = LstatFails name e \<longrightarrow> r = Failed e) \<and>
     (\<forall>name e entries. n = Directory name (Some e) entries \<longrightarrow> r = Failed e)"

text \<open>
  A walk over the entries \<open>paths\<close> from state \<open>st\<close> with outcome \<open>out\<close>: visited paths
  and errors are only appended, the paths are paths of the entries, and, when no two
  entries share a path, every visited entry has left what \<open>surfaced_by\<close> says.
\<close>

definition effect :: "License \<Rightarrow> (string \<times> node) list \<Rightarrow> scan \<Rightarrow> walk_result \<times> scan \<Rightarrow> bool" where
  "effect l paths st out \<longleftrightarrow>
     (\<exists>vs es. visited (snd out) = visited st @ vs \<and> errors (snd out) = errors st @ es \<and>
        set vs \<subseteq> fst ` set paths \<and>
        (distinct (map fst paths) \<longrightarrow>
           (\<forall>(p, n) \<in> set paths. p \<in> set vs \<longrightarrow> surfaced_by l p n es (fst out))))"

text \<open>
  The error the walk hands to the walk function with an entry: the error of \<^verbatim>\<open>lstat\<close>,
  or for a directory the error of reading its entries.
\<close>

fun entry_error :: "node \<Rightarrow> os_error option" where
  "entry_error (LstatFails name e) = Some e"
| "entry_error (Directory name rd entries) = rd"
| "entry_error (RegularFile name r) = None"
| "entry_error (OtherFile name) = None"

text \<open>
  Where the error of a walk comes from: when the outcome \<open>out\<close> of a walk over the
  entries \<open>paths\<close> is an error, it is the error of an entry that was visited.
\<close>

definition failure_source :: "(string \<times> node) list \<Rightarrow> walk_result \<times> scan \<Rightarrow> bool" where
  "failure_source paths out \<longleftrightarrow>
     (\<forall>x. fst out = Failed x \<longrightarrow>
        (\<exists>(p, n) \<in> set paths. p \<in> set (visited (snd out)) \<and> entry_error n = Some x))"

text \<open>Whether a message contains a path.\<close>

fun mentions :: "string \<Rightarrow> string \<Rightarrow> bool" where
  "mentions p [] = (p = [])"
| "mentions p (c # cs) = (HasPrefix (c # cs) p \<or> mentions p cs)"

subsection \<open>Concrete runs\<close>

text \<open>
  The scenario of the specification: \<^verbatim>\<open>a.go\<close> starts with the header, \<^verbatim>\<open>b.go\<close> and
  \<^verbatim>\<open>vendor/c.go\<close> do not, \<^verbatim>\<open>README\<close> has no suffix of interest.
\<close>

definition copyright :: string where
  "copyright = ''// Copyright'' @ [CHR 0x0A]"

definition scenario_tree :: node where
  "scenario_tree =
     Directory ''.'' None
       [RegularFile ''README'' (Inr ''conform''),
        RegularFile ''a.go'' (Inr (copyright @ ''package a'')),
        RegularFile ''b.go'' (Inr ''package b''),
        Directory ''vendor'' None [RegularFile ''c.go'' (Inr ''package c'')]]"

definition policy :: "string list \<Rightarrow> string list \<Rightarrow> string list \<Rightarrow> string \<Rightarrow> License" where
  "policy skip include exclude header =
     \<lparr>SkipPaths = skip, IncludeSuffixes = include, ExcludeSuffixes = exclude, Header = header\<rparr>"

text \<open>
  Answers of the pattern library, for the concrete runs: \<open>matching paths\<close> is a pattern
  list that parses without error and matches exactly \<open>paths\<close> (as the literal patterns
  \<^verbatim>\<open>vendor\<close> and \<^verbatim>\<open>b.go\<close> do for the entries of those names at the root);
  \<open>rejecting t\<close> is a pattern list with one line the parser reports, with error text
  \<open>t\<close>, and no match.
\<close>

definition matching :: "string list \<Rightarrow> string \<Rightarrow> gitignore" where
  "matching paths buf = \<lparr>reported = [], Relative = (\<lambda>path isdir. List.member paths path)\<rparr>"

definition rejecting :: "string \<Rightarrow> string \<Rightarrow> gitignore" where
  "rejecting t buf = \<lparr>reported = [t], Relative = (\<lambda>path isdir. False)\<rparr>"

text \<open>
  Two trees with a failure: a file that cannot be read beside one that can, and a
  directory whose entries cannot be read (the error of the directory read is a system
  call error, whose text names no path).
\<close>

definition unreadable_file_tree :: node where
  "unreadable_file_tree =
     Directory ''.'' None
       [RegularFile ''x.go'' (Inl (OsError ''open x.go: permission denied'')),
        RegularFile ''y.go'' (Inr ''package y'')]"

definition unreadable_directory_tree :: node where
  "unreadable_directory_tree =
     Directory ''.'' None
       [RegularFile ''a.go'' (Inr (copyright @ ''package a'')),
        Directory ''vendor'' (Some (OsError ''readdirent: input/output error'')) []]"

text \<open>A tree with an entry that is gone when the walk comes to it.\<close>

definition vanished_entry_tree :: node where
  "vanished_entry_tree =
     Directory ''.'' None
       [LstatFails ''gone.go'' (OsError ''lstat gone.go: no such file or directory''),
        RegularFile ''y.go'' (Inr ''package y'')]"

definition start :: scan where
  "start = \<lparr>errors = [], reads = [], visited = []\<rparr>"

section \<open>Properties\<close>

subsection \<open>The suffix loops\<close>

lemma excluded_iff: "excluded sufs name \<longleftrightarrow> (\<exists>s \<in> set sufs. HasSuffix name s)"
  by (induction sufs) auto

lemma check_included_header_present:
  "ReadFile info = Inr contents \<Longrightarrow> HasPrefix contents val \<Longrightarrow>
   errors (check_included val path info sufs st) = errors st"
  by (induction sufs arbitrary: st) auto

lemma check_included_read_fails:
  "ReadFile info = Inl e \<Longrightarrow> \<exists>s \<in> set sufs. HasSuffix (info_Name info) s \<Longrightarrow>
   check_included val path info sufs st =
     st\<lparr>errors := errors st @ [Fundamental (''Failed to open '' @ path)],
        reads := reads st @ [path]\<rparr>"
  by (induction sufs arbitrary: st) auto

text \<open>
  A readable file without the header is read, and reported, once for every include
  suffix its name ends with.
\<close>

lemma check_included_header_absent:
  "ReadFile info = Inr contents \<Longrightarrow> \<not> HasPrefix contents val \<Longrightarrow>
   check_included val path info sufs st =
     st\<lparr>errors := errors st @
          replicate (length (filter (HasSuffix (info_Name info)) sufs))
            (Fundamental (''File '' @ path @ '' does not contain a license header'')),
        reads := reads st @ replicate (length (filter (HasSuffix (info_Name info)) sufs)) path\<rparr>"
proof (induction sufs arbitrary: st)
  case Nil
  show ?case by simp
next
  case (Cons s sufs)
  show ?case
    using Cons.prems
    by (simp add: Cons.IH replicate_app_Cons_same del: append.simps)
qed

subsection \<open>The walk function on one entry\<close>

text \<open>For an entry that is not a directory the matcher has no say.\<close>

lemma skip_block_file: "\<not> IsDir info \<Longrightarrow> skip_block matcher path info = None"
  by (simp add: skip_block_def)

lemma walkFn_file_ignores_matcher:
  "\<not> IsDir info \<Longrightarrow> walkFn l matcher path info err st = walkFn l matcher' path info err st"
  by (cases err) (simp_all add: walkFn_def skip_block_file Let_def)

lemma walkFn_matched_directory:
  "matcher path True \<Longrightarrow>
   walkFn l matcher path (Directory name rd entries) rd st =
     (case rd of None \<Rightarrow> SkipDir | Some e \<Rightarrow> Failed e, st\<lparr>visited := visited st @ [path]\<rparr>)"
  by (simp add: walkFn_def skip_block_def Let_def split: option.split)

text \<open>After a matched directory the loop over the entries goes on with the next one.\<close>

lemma walk_names_matched_directory:
  "matcher (Join dir name) True \<Longrightarrow>
   walk_names (walkFn l matcher) dir (Directory name None entries # rest) st =
     walk_names (walkFn l matcher) dir rest (st\<lparr>visited := visited st @ [Join dir name]\<rparr>)"
  by (simp add: walkFn_matched_directory Let_def)

subsection \<open>The errors grow by messages about files that were read\<close>

lemma grows_refl: "grows st st"
  by (simp add: grows_def)

lemma grows_trans: "grows a b \<Longrightarrow> grows b c \<Longrightarrow> grows a c"
  unfolding grows_def by blast

lemma grows_visited: "grows st (st\<lparr>visited := v\<rparr>)"
  by (simp add: grows_def)

lemma file_violation_open: "file_violation p (Fundamental (''Failed to open '' @ p))"
  by (simp add: file_violation_def)

lemma file_violation_header:
  "file_violation p (Fundamental (''File '' @ p @ '' does not contain a license header''))"
  by (simp add: file_violation_def)

lemma grows_read: "grows st (st\<lparr>reads := reads st @ [p]\<rparr>)"
  unfolding grows_def by auto

lemma grows_record:
  "file_violation p e \<Longrightarrow>
   grows st (st\<lparr>reads := reads st @ [p], errors := errors st @ [e]\<rparr>)"
  unfolding grows_def by auto

lemma check_included_grows: "grows st (check_included val path info sufs st)"
proof (induction sufs arbitrary: st)
  case Nil
  show ?case by (simp add: grows_refl)
next
  case (Cons s sufs)
  let ?st1 = "st\<lparr>reads := reads st @ [path]\<rparr>"
  let ?st2 = "st\<lparr>reads := reads st @ [path], errors := errors st @
                 [Fundamental (''File '' @ path @ '' does not contain a license header'')]\<rparr>"
  let ?st3 = "st\<lparr>reads := reads st @ [path], errors := errors st @
                 [Fundamental (''Failed to open '' @ path)]\<rparr>"
  have a: "grows st (check_included val path info sufs ?st1)"
    by (rule grows_trans [OF grows_read Cons.IH])
  have b: "grows st (check_included val path info sufs ?st2)"
    by (rule grows_trans [OF grows_record [OF file_violation_header] Cons.IH])
  have c: "grows st ?st3"
    by (rule grows_record [OF file_violation_open])
  show ?case
    using Cons.IH [of st] a b c
    by (simp add: Let_def split: sum.split del: append.simps)
qed

lemma walkFn_grows: "grows st (snd (walkFn l matcher path info err st))"
proof -
  let ?st = "st\<lparr>visited := visited st @ [path]\<rparr>"
  have "grows st (check_included (Header l) path info (IncludeSuffixes l) ?st)"
    by (rule grows_trans [OF grows_visited check_included_grows])
  then show ?thesis
    by (simp add: walkFn_def Let_def grows_visited split: option.split)
qed

lemma walk_grows:
  "(\<forall>path info err st. grows st (snd (fn path info err st))) \<Longrightarrow>
     grows st (snd (walk fn path info st))"
  "(\<forall>path info err st. grows st (snd (fn path info err st))) \<Longrightarrow>
     grows st (snd (walk_names fn path entries st))"
proof (induction fn path info st and fn path entries st rule: walk_walk_names.induct)
  case (1 fn path name rd entries st)
  obtain err1 st1 where f: "fn path (Directory name rd entries) rd st = (err1, st1)"
    by (cases "fn path (Directory name rd entries) rd st")
  have g: "grows st st1" using "1.prems" f by (metis snd_conv)
  show ?case
  proof (cases "rd \<noteq> None \<or> err1 \<noteq> Ok")
    case True
    then show ?thesis using f g by auto
  next
    case False
    have "grows st1 (snd (walk_names fn path entries st1))"
      using "1.IH" [OF refl f [symmetric] False "1.prems"] .
    then show ?thesis using f g False by (auto intro: grows_trans)
  qed
next
  case (2 fn path name r st)
  then show ?case by simp
next
  case (3 fn path name st)
  then show ?case by simp
next
  case (4 fn path name e st)
  then show ?case by simp
next
  case (5 fn path st)
  then show ?case by (simp add: grows_refl)
next
  case (6 fn path entry rest st)
  let ?filename = "Join path (info_Name entry)"
  show ?case
  proof (cases "lstat entry")
    case (Some e)
    obtain err st1 where f: "fn ?filename entry (Some e) st = (err, st1)"
      by (cases "fn ?filename entry (Some e) st")
    have g: "grows st st1" using "6.prems" f by (metis snd_conv)
    show ?thesis
    proof (cases "err \<noteq> Ok \<and> err \<noteq> SkipDir")
      case True
      then show ?thesis using Some f g by (auto simp add: Let_def)
    next
      case False
      have "grows st1 (snd (walk_names fn path rest st1))"
        using "6.IH"(4) [OF refl Some refl f [symmetric] False "6.prems"] .
      then show ?thesis using Some f g False by (auto simp add: Let_def intro: grows_trans)
    qed
  next
    case None
    obtain err st1 where f: "walk fn ?filename entry st = (err, st1)"
      by (cases "walk fn ?filename entry st")
    have g: "grows st st1" using "6.IH"(1) [OF refl None "6.prems"] f by simp
    show ?thesis
    proof (cases "err \<noteq> Ok \<and> (\<not> IsDir entry \<or> err \<noteq> SkipDir)")
      case True
      then show ?thesis using None f g by (auto simp add: Let_def)
    next
      case False
      have "grows st1 (snd (walk_names fn path rest st1))"
      proof (cases "err = Ok")
        case True
        then have "\<not> err \<noteq> Ok" by simp
        then show ?thesis
          using "6.IH"(3) [OF refl None refl f [symmetric] _ "6.prems"] by blast
      next
        case ne: False
        from False ne have "\<not> (\<not> IsDir entry \<or> err \<noteq> SkipDir)" by simp
        then show ?thesis
          using "6.IH"(2) [OF refl None refl f [symmetric] ne _ "6.prems"] by blast
      qed
      then show ?thesis using None f g False by (auto simp add: Let_def intro: grows_trans)
    qed
  qed
qed


lemma snd_Walk:
  "snd (Walk root info fn st) =
     snd (case lstat info of Some e \<Rightarrow> fn root info (Some e) st | None \<Rightarrow> walk fn root info st)"
  by (simp add: Walk_def split: prod.split walk_result.split)

lemma Walk_grows: "grows st (snd (Walk root info (walkFn l matcher) st))"
proof (cases "lstat info")
  case None
  have "grows st (snd (walk (walkFn l matcher) root info st))"
    by (rule walk_grows(1)) (simp add: walkFn_grows)
  then show ?thesis using None by (simp add: snd_Walk)
next
  case (Some e)
  then show ?thesis by (simp add: snd_Walk walkFn_grows)
qed

subsection \<open>A failure of the walk itself\<close>

text \<open>
  When \<^verbatim>\<open>filepath.Walk\<close> returns an error, the report ends with one message made around the
  text of that error; a root whose entries cannot be read is such a case.
\<close>

lemma walk_failure_is_reported:
  assumes "Header l \<noteq> []"
    and "Walk ''.'' tree (walkFn l (Relative (New (pattern_buffer (SkipPaths l)))))
           \<lparr>errors = map Underlying (reported (New (pattern_buffer (SkipPaths l)))),
            reads = [], visited = []\<rparr> = (Some e, st1)"
  shows "run l New tree =
           st1\<lparr>errors := errors st1 @ [Fundamental (''Failed to walk directory: '' @ error_text e)]\<rparr>"
  using assms by (simp add: run_def Let_def)

lemma unreadable_root_report:
  "run (policy [] [''.go''] [] copyright) (matching [])
       (Directory ''.'' (Some (OsError ''open .: permission denied''))
          [RegularFile ''b.go'' (Inr ''package b'')]) =
     \<lparr>errors = [Fundamental ''Failed to walk directory: open .: permission denied''],
      reads = [], visited = [''.'']\<rparr>"
  by code_simp

subsection \<open>What a walk leaves behind\<close>

text \<open>
  The effect of a walk is put together from the effects of its parts: a walk that stops
  at an entry has the effect of that entry, and a walk that goes on has the effects of
  both parts, as long as the first part did not fail.
\<close>

lemma surfaced_by_append:
  "surfaced_by l p n es r \<Longrightarrow> surfaced_by l p n (es' @ es) r"
  by (auto simp add: surfaced_by_def)

lemma surfaced_by_continue:
  "surfaced_by l p n es r \<Longrightarrow> \<forall>e. r \<noteq> Failed e \<Longrightarrow> surfaced_by l p n (es @ es') r'"
  by (auto simp add: surfaced_by_def)

lemma effect_abort:
  assumes "effect l ps st out"
  shows "effect l (ps @ ps') st out"
proof -
  obtain vs es where v: "visited (snd out) = visited st @ vs"
    and e: "errors (snd out) = errors st @ es"
    and s: "set vs \<subseteq> fst ` set ps"
    and d: "distinct (map fst ps) \<longrightarrow>
              (\<forall>(p, n) \<in> set ps. p \<in> set vs \<longrightarrow> surfaced_by l p n es (fst out))"
    using assms unfolding effect_def by blast
  have "distinct (map fst (ps @ ps')) \<longrightarrow>
          (\<forall>(p, n) \<in> set (ps @ ps'). p \<in> set vs \<longrightarrow> surfaced_by l p n es (fst out))"
  proof (intro impI ballI, clarify)
    fix p n
    assume dist: "distinct (map fst (ps @ ps'))" and m: "(p, n) \<in> set (ps @ ps')" and pv: "p \<in> set vs"
    have "p \<in> fst ` set ps" using s pv by blast
    moreover have "fst ` set ps \<inter> fst ` set ps' = {}" using dist by simp
    ultimately have "(p, n) \<notin> set ps'" by force
    then have "(p, n) \<in> set ps" using m by simp
    moreover have "distinct (map fst ps)" using dist by simp
    ultimately show "surfaced_by l p n es (fst out)" using d pv by blast
  qed
  moreover have "set vs \<subseteq> fst ` set (ps @ ps')" using s by auto
  ultimately show ?thesis unfolding effect_def using v e by blast
qed

lemma effect_seq:
  assumes a: "effect l ps st (r1, st1)"
    and ok: "\<forall>e. r1 \<noteq> Failed e"
    and b: "effect l ps' st1 out"
  shows "effect l (ps @ ps') st out"
proof -
  obtain vs es where v: "visited st1 = visited st @ vs"
    and e: "errors st1 = errors st @ es"
    and s: "set vs \<subseteq> fst ` set ps"
    and d: "distinct (map fst ps) \<longrightarrow>
              (\<forall>(p, n) \<in> set ps. p \<in> set vs \<longrightarrow> surfaced_by l p n es r1)"
    using a unfolding effect_def by auto
  obtain vs' es' where v': "visited (snd out) = visited st1 @ vs'"
    and e': "errors (snd out) = errors st1 @ es'"
    and s': "set vs' \<subseteq> fst ` set ps'"
    and d': "distinct (map fst ps') \<longrightarrow>
              (\<forall>(p, n) \<in> set ps'. p \<in> set vs' \<longrightarrow> surfaced_by l p n es' (fst out))"
    using b unfolding effect_def by blast
  have "distinct (map fst (ps @ ps')) \<longrightarrow>
          (\<forall>(p, n) \<in> set (ps @ ps'). p \<in> set (vs @ vs') \<longrightarrow>
             surfaced_by l p n (es @ es') (fst out))"
  proof (intro impI ballI, clarify)
    fix p n
    assume dist: "distinct (map fst (ps @ ps'))" and m: "(p, n) \<in> set (ps @ ps')"
      and pv: "p \<in> set (vs @ vs')"
    have disj: "fst ` set ps \<inter> fst ` set ps' = {}" using dist by simp
    have d1: "distinct (map fst ps)" and d2: "distinct (map fst ps')" using dist by simp_all
    show "surfaced_by l p n (es @ es') (fst out)"
    proof (cases "(p, n) \<in> set ps")
      case True
      then have "p \<in> fst ` set ps" by force
      then have "p \<notin> set vs'" using s' disj by blast
      then have "p \<in> set vs" using pv by simp
      then have "surfaced_by l p n es r1" using d d1 True by blast
      then show ?thesis using ok by (rule surfaced_by_continue)
    next
      case False
      then have in2: "(p, n) \<in> set ps'" using m by simp
      then have "p \<in> fst ` set ps'" by force
      then have "p \<notin> set vs" using s disj by blast
      then have "p \<in> set vs'" using pv by simp
      then have "surfaced_by l p n es' (fst out)" using d' d2 in2 by blast
      then show ?thesis by (rule surfaced_by_append)
    qed
  qed
  moreover have "set (vs @ vs') \<subseteq> fst ` set (ps @ ps')" using s s' by auto
  moreover have "visited (snd out) = visited st @ (vs @ vs')" using v v' by simp
  moreover have "errors (snd out) = errors st @ (es @ es')" using e e' by simp
  ultimately show ?thesis unfolding effect_def by blast
qed

lemma effect_nothing: "effect l [] st (r, st)"
  by (simp add: effect_def)

lemma check_included_frame:
  "visited (check_included val path info sufs st) = visited st \<and>
   (\<exists>es. errors (check_included val path info sufs st) = errors st @ es)"
proof (induction sufs arbitrary: st)
  case Nil
  show ?case by simp
next
  case (Cons s sufs)
  let ?st1 = "st\<lparr>reads := reads st @ [path]\<rparr>"
  let ?st2 = "?st1\<lparr>errors := errors ?st1 @
                 [Fundamental (''File '' @ path @ '' does not contain a license header'')]\<rparr>"
  from Cons.IH [of ?st2] obtain es2 where
    e2: "errors (check_included val path info sufs ?st2) = errors ?st2 @ es2"
    and v2: "visited (check_included val path info sufs ?st2) = visited ?st2"
    by blast
  have e2': "\<exists>es. errors (check_included val path info sufs ?st2) = errors st @ es"
    using e2 by simp
  show ?case
    using Cons.IH [of st] Cons.IH [of ?st1] e2' v2
    by (simp add: Let_def split: sum.split del: append.simps)
qed

lemma effect_single:
  assumes "visited st' = visited st @ [path]"
    and "errors st' = errors st @ es"
    and "surfaced_by l path n es r"
  shows "effect l [(path, n)] st (r, st')"
  unfolding effect_def using assms by (intro exI [of _ "[path]"] exI [of _ es]) simp

lemma walkFn_effect_lstat:
  "effect l [(path, LstatFails name e)] st (walkFn l m path (LstatFails name e) (Some e) st)"
  by (simp add: walkFn_def)
     (rule effect_single [where es = "[]"], simp_all add: surfaced_by_def)

lemma walkFn_effect_other:
  "effect l [(path, OtherFile name)] st (walkFn l m path (OtherFile name) None st)"
  by (simp add: walkFn_def skip_block_def)
     (rule effect_single [where es = "[]"], simp_all add: surfaced_by_def)

lemma walkFn_effect_directory:
  "effect l [(path, Directory name rd entries)] st
     (walkFn l m path (Directory name rd entries) rd st)"
proof (cases rd)
  case None
  show ?thesis
    unfolding None
    by (simp add: walkFn_def skip_block_def)
       (safe; rule effect_single [where es = "[]"]; simp add: surfaced_by_def)
next
  case (Some e)
  show ?thesis
    unfolding Some
    by (simp add: walkFn_def)
       (rule effect_single [where es = "[]"], simp_all add: surfaced_by_def)
qed

lemma walkFn_effect_regular:
  "effect l [(path, RegularFile name r)] st (walkFn l m path (RegularFile name r) None st)"
proof (cases "excluded (ExcludeSuffixes l) name")
  case True
  then show ?thesis
    by (simp add: walkFn_def skip_block_def)
       (rule effect_single [where es = "[]"], simp_all add: surfaced_by_def)
next
  case False
  let ?st = "st\<lparr>visited := visited st @ [path]\<rparr>"
  let ?st' = "check_included (Header l) path (RegularFile name r) (IncludeSuffixes l) ?st"
  have w: "walkFn l m path (RegularFile name r) None st = (Ok, ?st')"
    using False by (simp add: walkFn_def skip_block_def)
  obtain es where v: "visited ?st' = visited st @ [path]" and e: "errors ?st' = errors st @ es"
    using check_included_frame [of "Header l" path "RegularFile name r" "IncludeSuffixes l" ?st]
    by auto
  have "surfaced_by l path (RegularFile name r) es Ok"
    unfolding surfaced_by_def
  proof (intro conjI allI impI)
    fix name' e'
    assume a: "RegularFile name r = RegularFile name' (Inl e') \<and>
       \<not> excluded (ExcludeSuffixes l) name' \<and> (\<exists>s\<in>set (IncludeSuffixes l). HasSuffix name' s)"
    then have "ReadFile (RegularFile name r) = Inl e'"
      and "\<exists>s\<in>set (IncludeSuffixes l). HasSuffix (info_Name (RegularFile name r)) s"
      by auto
    from check_included_read_fails [OF this, of "Header l" path ?st]
    have "errors ?st' = errors st @ [Fundamental (''Failed to open '' @ path)]" by simp
    then show "Fundamental (''Failed to open '' @ path) \<in> set es" using e by simp
  qed simp_all
  then show ?thesis unfolding w using v e by (intro effect_single)
qed

lemma walk_names_effect:
  assumes each: "\<And>x path st. x \<in> set entries \<Longrightarrow>
                   effect l (tree_paths path x) st (walk (walkFn l m) path x st)"
  shows "effect l (entry_paths dir entries) st (walk_names (walkFn l m) dir entries st)"
  using each
proof (induction entries arbitrary: st)
  case Nil
  show ?case by (simp add: effect_nothing)
next
  case (Cons entry rest)
  let ?fn = "walkFn l m"
  let ?filename = "Join dir (info_Name entry)"
  obtain err st1 where w: "walk ?fn ?filename entry st = (err, st1)"
    by (cases "walk ?fn ?filename entry st")
  have first: "effect l (tree_paths ?filename entry) st (err, st1)"
    using Cons.prems [of entry ?filename st] w by simp
  have rest: "effect l (entry_paths dir rest) st1 (walk_names ?fn dir rest st1)"
    by (rule Cons.IH) (simp add: Cons.prems)
  have stop: "effect l (entry_paths dir (entry # rest)) st (err, st1)"
    using effect_abort [OF first] by simp
  show ?case
  proof (cases "lstat entry")
    case (Some e)
    then obtain name where en: "entry = LstatFails name e"
      by (cases entry) simp_all
    have "err = Failed e" using w en by (simp add: walkFn_def)
    then have "walk_names ?fn dir (entry # rest) st = (err, st1)"
      using w en by (simp add: Let_def)
    then show ?thesis using stop by simp
  next
    case None
    show ?thesis
    proof (cases "err \<noteq> Ok \<and> (\<not> IsDir entry \<or> err \<noteq> SkipDir)")
      case True
      then have "walk_names ?fn dir (entry # rest) st = (err, st1)"
        using w None by (auto simp add: Let_def)
      then show ?thesis using stop by simp
    next
      case False
      then have cont: "walk_names ?fn dir (entry # rest) st = walk_names ?fn dir rest st1"
        using w None by (auto simp add: Let_def)
      have "\<forall>e. err \<noteq> Failed e" using False by auto
      from effect_seq [OF first this rest]
      show ?thesis using cont by simp
    qed
  qed
qed

lemma walk_effect: "effect l (tree_paths path info) st (walk (walkFn l m) path info st)"
proof (induction info arbitrary: path st)
  case (RegularFile name r)
  show ?case by (simp add: walkFn_effect_regular)
next
  case (OtherFile name)
  show ?case by (simp add: walkFn_effect_other)
next
  case (Directory name rd entries)
  let ?fn = "walkFn l m"
  let ?dir = "Directory name rd entries"
  obtain err1 st1 where w: "?fn path ?dir rd st = (err1, st1)"
    by (cases "?fn path ?dir rd st")
  have first: "effect l [(path, ?dir)] st (err1, st1)"
    using walkFn_effect_directory [of l path name rd entries st m] w by simp
  show ?case
  proof (cases "rd \<noteq> None \<or> err1 \<noteq> Ok")
    case True
    then have "walk ?fn path ?dir st = (err1, st1)" using w by auto
    then show ?thesis using effect_abort [OF first, of "entry_paths path entries"] by simp
  next
    case False
    then have cont: "walk ?fn path ?dir st = walk_names ?fn path entries st1"
      using w by auto
    have below: "effect l (entry_paths path entries) st1 (walk_names ?fn path entries st1)"
      by (rule walk_names_effect) (rule Directory.IH)
    have "\<forall>e. err1 \<noteq> Failed e" using False by simp
    from effect_seq [OF first this below]
    show ?thesis using cont by simp
  qed
next
  case (LstatFails name e)
  show ?case by (simp add: walkFn_effect_lstat)
qed

subsection \<open>What a run leaves in its errors\<close>

lemma Walk_by_walk:
  "Walk root info fn st =
     (case walk fn root info st of
        (Ok, st1) \<Rightarrow> (None, st1)
      | (SkipDir, st1) \<Rightarrow> (None, st1)
      | (Failed e, st1) \<Rightarrow> (Some e, st1))"
  by (cases info) (simp_all add: Walk_def split: prod.split walk_result.split)

lemma run_empty_header:
  "Header l = [] \<Longrightarrow>
   visited (run l New tree) = [] \<and>
   errors (run l New tree) =
     map Underlying (reported (New (pattern_buffer (SkipPaths l)))) @
     [Fundamental ''Header is not defined'']"
  by (simp add: run_def Let_def)

lemma run_by_walk_of_run:
  "Header l \<noteq> [] \<Longrightarrow>
   visited (run l New tree) = visited (snd (walk_of_run l New tree)) \<and>
   reads (run l New tree) = reads (snd (walk_of_run l New tree)) \<and>
   errors (run l New tree) =
     errors (snd (walk_of_run l New tree)) @
     (case fst (walk_of_run l New tree) of
        None \<Rightarrow> []
      | Some e \<Rightarrow> [Fundamental (''Failed to walk directory: '' @ error_text e)])"
  by (simp add: run_def walk_of_run_def Let_def split: prod.split option.split)

text \<open>What a run has visited has left its mark in the errors of the run.\<close>

lemma run_surfaces:
  assumes d: "distinct (map fst (tree_paths ''.'' tree))"
    and m: "(p, n) \<in> set (tree_paths ''.'' tree)"
    and v: "p \<in> set (visited (run l New tree))"
  shows "\<exists>es r. surfaced_by l p n es r \<and> set es \<subseteq> set (errors (run l New tree)) \<and>
           (\<forall>e. r = Failed e \<longrightarrow>
              Fundamental (''Failed to walk directory: '' @ error_text e)
                \<in> set (errors (run l New tree)))"
proof -
  have h: "Header l \<noteq> []"
    using v run_empty_header [of l New tree] by auto
  let ?fn = "walkFn l (Relative (New (pattern_buffer (SkipPaths l))))"
  let ?check = "\<lparr>errors = map Underlying (reported (New (pattern_buffer (SkipPaths l)))),
                 reads = [], visited = []\<rparr>"
  obtain r st1 where w: "walk ?fn ''.'' tree ?check = (r, st1)"
    by (cases "walk ?fn ''.'' tree ?check")
  have "effect l (tree_paths ''.'' tree) ?check (r, st1)"
    using walk_effect [of l "''.''" tree ?check "Relative (New (pattern_buffer (SkipPaths l)))"] w
    by simp
  then obtain vs es where vs: "visited st1 = vs" and es: "errors st1 = errors ?check @ es"
    and s: "\<forall>(p, n) \<in> set (tree_paths ''.'' tree). p \<in> set vs \<longrightarrow> surfaced_by l p n es r"
    using d unfolding effect_def by auto
  have wr: "walk_of_run l New tree =
      (case r of Ok \<Rightarrow> (None, st1) | SkipDir \<Rightarrow> (None, st1) | Failed e \<Rightarrow> (Some e, st1))"
    using w by (simp add: walk_of_run_def Walk_by_walk)
  have snd_wr: "snd (walk_of_run l New tree) = st1"
    using wr by (cases r) simp_all
  have fst_wr: "\<forall>e. r = Failed e \<longrightarrow> fst (walk_of_run l New tree) = Some e"
    using wr by (cases r) simp_all
  note rw = run_by_walk_of_run [OF h, of New tree]
  have "p \<in> set vs" using v rw snd_wr vs by simp
  then have "surfaced_by l p n es r" using s m by blast
  moreover have "set es \<subseteq> set (errors (run l New tree))"
    using rw snd_wr es by auto
  moreover have "\<forall>e. r = Failed e \<longrightarrow>
      Fundamental (''Failed to walk directory: '' @ error_text e) \<in> set (errors (run l New tree))"
    using rw fst_wr by auto
  ultimately show ?thesis by blast
qed

lemma pattern_errors_in_run:
  "t \<in> set (reported (New (pattern_buffer (SkipPaths l)))) \<Longrightarrow>
   Underlying t \<in> set (errors (run l New tree))"
proof (cases "Header l = []")
  case True
  assume "t \<in> set (reported (New (pattern_buffer (SkipPaths l))))"
  then show ?thesis using run_empty_header [OF True, of New tree] by simp
next
  case False
  assume t: "t \<in> set (reported (New (pattern_buffer (SkipPaths l))))"
  let ?fn = "walkFn l (Relative (New (pattern_buffer (SkipPaths l))))"
  let ?check = "\<lparr>errors = map Underlying (reported (New (pattern_buffer (SkipPaths l)))),
                 reads = [], visited = []\<rparr>"
  obtain r st1 where w: "walk ?fn ''.'' tree ?check = (r, st1)"
    by (cases "walk ?fn ''.'' tree ?check")
  have "effect l (tree_paths ''.'' tree) ?check (r, st1)"
    using walk_effect [of l "''.''" tree ?check "Relative (New (pattern_buffer (SkipPaths l)))"] w
    by simp
  then obtain es where es: "errors st1 = errors ?check @ es"
    unfolding effect_def by auto
  have "snd (walk_of_run l New tree) = st1"
    using w by (cases r) (simp_all add: walk_of_run_def Walk_by_walk)
  then show ?thesis
    using run_by_walk_of_run [OF False, of New tree] es t by auto
qed

lemma walk_error_in_run:
  "Header l \<noteq> [] \<Longrightarrow> fst (walk_of_run l New tree) = Some e \<Longrightarrow>
   Fundamental (''Failed to walk directory: '' @ error_text e) \<in> set (errors (run l New tree))"
  using run_by_walk_of_run [of l New tree] by simp

lemma unreadable_file_in_run:
  assumes "distinct (map fst (tree_paths ''.'' tree))"
    and "(p, RegularFile name (Inl e)) \<in> set (tree_paths ''.'' tree)"
    and "p \<in> set (visited (run l New tree))"
    and "\<not> (\<exists>s \<in> set (ExcludeSuffixes l). HasSuffix name s)"
    and "\<exists>s \<in> set (IncludeSuffixes l). HasSuffix name s"
  shows "Fundamental (''Failed to open '' @ p) \<in> set (errors (run l New tree))"
proof -
  from run_surfaces [OF assms(1) assms(2) assms(3)] obtain es r
    where s: "surfaced_by l p (RegularFile name (Inl e)) es r"
      and sub: "set es \<subseteq> set (errors (run l New tree))"
    by blast
  have "Fundamental (''Failed to open '' @ p) \<in> set es"
    using s assms(4) assms(5) unfolding surfaced_by_def excluded_iff by blast
  then show ?thesis using sub by blast
qed

lemma failed_lstat_in_run:
  assumes "distinct (map fst (tree_paths ''.'' tree))"
    and "(p, LstatFails name e) \<in> set (tree_paths ''.'' tree)"
    and "p \<in> set (visited (run l New tree))"
  shows "Fundamental (''Failed to walk directory: '' @ error_text e)
           \<in> set (errors (run l New tree))"
proof -
  from run_surfaces [OF assms] obtain es r
    where s: "surfaced_by l p (LstatFails name e) es r"
      and f: "\<forall>e. r = Failed e \<longrightarrow>
            Fundamental (''Failed to walk directory: '' @ error_text e)
              \<in> set (errors (run l New tree))"
    by blast
  have "r = Failed e" using s unfolding surfaced_by_def by blast
  then show ?thesis using f by blast
qed

lemma unreadable_directory_in_run:
  assumes "distinct (map fst (tree_paths ''.'' tree))"
    and "(p, Directory name (Some e) entries) \<in> set (tree_paths ''.'' tree)"
    and "p \<in> set (visited (run l New tree))"
  shows "Fundamental (''Failed to walk directory: '' @ error_text e)
           \<in> set (errors (run l New tree))"
proof -
  from run_surfaces [OF assms] obtain es r
    where s: "surfaced_by l p (Directory name (Some e) entries) es r"
      and f: "\<forall>e. r = Failed e \<longrightarrow>
            Fundamental (''Failed to walk directory: '' @ error_text e)
              \<in> set (errors (run l New tree))"
    by blast
  have "r = Failed e" using s unfolding surfaced_by_def by blast
  then show ?thesis using f by blast
qed

subsection \<open>Where the error of a walk comes from\<close>

lemma failure_source_mono:
  "failure_source ps out \<Longrightarrow> set ps \<subseteq> set ps' \<Longrightarrow> failure_source ps' out"
  unfolding failure_source_def by blast

lemma walkFn_failure_source:
  "failure_source [(path, info)] (walkFn l m path info (entry_error info) st)"
  by (cases info)
     (auto simp add: failure_source_def walkFn_def skip_block_def Let_def split: option.split)

lemma walk_names_failure_source:
  assumes each: "\<And>x path st. x \<in> set entries \<Longrightarrow>
                   failure_source (tree_paths path x) (walk (walkFn l m) path x st)"
  shows "failure_source (entry_paths dir entries) (walk_names (walkFn l m) dir entries st)"
  using each
proof (induction entries arbitrary: st)
  case Nil
  show ?case by (simp add: failure_source_def)
next
  case (Cons entry rest)
  let ?fn = "walkFn l m"
  let ?filename = "Join dir (info_Name entry)"
  obtain err st1 where w: "walk ?fn ?filename entry st = (err, st1)"
    by (cases "walk ?fn ?filename entry st")
  have first: "failure_source (tree_paths ?filename entry) (err, st1)"
    using Cons.prems [of entry ?filename st] w by simp
  have stop: "failure_source (entry_paths dir (entry # rest)) (err, st1)"
    by (rule failure_source_mono [OF first]) simp
  have rest: "failure_source (entry_paths dir rest) (walk_names ?fn dir rest st1)"
    by (rule Cons.IH) (simp add: Cons.prems)
  have cont: "failure_source (entry_paths dir (entry # rest)) (walk_names ?fn dir rest st1)"
    by (rule failure_source_mono [OF rest]) auto
  show ?case
  proof (cases "lstat entry")
    case (Some e)
    then obtain name where en: "entry = LstatFails name e"
      by (cases entry) simp_all
    have "err = Failed e" using w en by (simp add: walkFn_def)
    then have "walk_names ?fn dir (entry # rest) st = (err, st1)"
      using w en by (simp add: Let_def)
    then show ?thesis using stop by simp
  next
    case None
    show ?thesis
    proof (cases "err \<noteq> Ok \<and> (\<not> IsDir entry \<or> err \<noteq> SkipDir)")
      case True
      then have "walk_names ?fn dir (entry # rest) st = (err, st1)"
        using w None by (auto simp add: Let_def)
      then show ?thesis using stop by simp
    next
      case False
      then have "walk_names ?fn dir (entry # rest) st = walk_names ?fn dir rest st1"
        using w None by (auto simp add: Let_def)
      then show ?thesis using cont by simp
    qed
  qed
qed

lemma walk_failure_source:
  "failure_source (tree_paths path info) (walk (walkFn l m) path info st)"
proof (induction info arbitrary: path st)
  case (RegularFile name r)
  show ?case using walkFn_failure_source [of path "RegularFile name r" l m st] by simp
next
  case (OtherFile name)
  show ?case using walkFn_failure_source [of path "OtherFile name" l m st] by simp
next
  case (Directory name rd entries)
  let ?fn = "walkFn l m"
  let ?dir = "Directory name rd entries"
  obtain err1 st1 where w: "?fn path ?dir rd st = (err1, st1)"
    by (cases "?fn path ?dir rd st")
  have first: "failure_source [(path, ?dir)] (err1, st1)"
    using walkFn_failure_source [of path ?dir l m st] w by simp
  show ?case
  proof (cases "rd \<noteq> None \<or> err1 \<noteq> Ok")
    case True
    then have "walk ?fn path ?dir st = (err1, st1)" using w by auto
    moreover have "failure_source (tree_paths path ?dir) (err1, st1)"
      by (rule failure_source_mono [OF first]) simp
    ultimately show ?thesis by simp
  next
    case False
    then have cont: "walk ?fn path ?dir st = walk_names ?fn path entries st1"
      using w by auto
    have "failure_source (entry_paths path entries) (walk_names ?fn path entries st1)"
      by (rule walk_names_failure_source) (rule Directory.IH)
    then have "failure_source (tree_paths path ?dir) (walk_names ?fn path entries st1)"
      by (rule failure_source_mono) auto
    then show ?thesis using cont by simp
  qed
next
  case (LstatFails name e)
  show ?case using walkFn_failure_source [of path "LstatFails name e" l m st] by simp
qed

lemma walk_of_run_failure_source:
  assumes h: "Header l \<noteq> []" and f: "fst (walk_of_run l New tree) = Some x"
  shows "\<exists>(p, n) \<in> set (tree_paths ''.'' tree).
           p \<in> set (visited (run l New tree)) \<and> entry_error n = Some x"
proof -
  let ?fn = "walkFn l (Relative (New (pattern_buffer (SkipPaths l))))"
  let ?check = "\<lparr>errors = map Underlying (reported (New (pattern_buffer (SkipPaths l)))),
                 reads = [], visited = []\<rparr>"
  obtain r st1 where w: "walk ?fn ''.'' tree ?check = (r, st1)"
    by (cases "walk ?fn ''.'' tree ?check")
  have wr: "walk_of_run l New tree =
      (case r of Ok \<Rightarrow> (None, st1) | SkipDir \<Rightarrow> (None, st1) | Failed e \<Rightarrow> (Some e, st1))"
    using w by (simp add: walk_of_run_def Walk_by_walk)
  have r: "r = Failed x" using wr f by (cases r) simp_all
  have s: "snd (walk_of_run l New tree) = st1" using wr by (cases r) simp_all
  have "failure_source (tree_paths ''.'' tree) (r, st1)"
    using walk_failure_source [of "''.''" tree l "Relative (New (pattern_buffer (SkipPaths l)))" ?check] w
    by simp
  then have "\<exists>(p, n) \<in> set (tree_paths ''.'' tree). p \<in> set (visited st1) \<and> entry_error n = Some x"
    using r unfolding failure_source_def by simp
  then show ?thesis
    using run_by_walk_of_run [OF h, of New tree] s by simp
qed

subsection \<open>Messages and the paths they name\<close>

lemma HasPrefix_iff: "HasPrefix s p \<longleftrightarrow> (\<exists>r. s = p @ r)"
proof
  assume "HasPrefix s p"
  then have "s = p @ drop (length p) s"
    by (metis HasPrefix_def append_take_drop_id)
  then show "\<exists>r. s = p @ r" ..
next
  assume "\<exists>r. s = p @ r"
  then show "HasPrefix s p" by (auto simp add: HasPrefix_def)
qed

lemma mentions_iff: "mentions p s \<longleftrightarrow> (\<exists>a b. s = a @ p @ b)"
proof (induction s)
  case Nil
  show ?case by simp
next
  case (Cons c cs)
  show ?case
  proof
    assume "mentions p (c # cs)"
    then consider "HasPrefix (c # cs) p" | "mentions p cs" by auto
    then show "\<exists>a b. c # cs = a @ p @ b"
    proof cases
      case 1
      then obtain r where "c # cs = p @ r" unfolding HasPrefix_iff by blast
      then have "c # cs = [] @ p @ r" by simp
      then show ?thesis by blast
    next
      case 2
      then obtain a b where "cs = a @ p @ b" using Cons.IH by blast
      then have "c # cs = (c # a) @ p @ b" by simp
      then show ?thesis by blast
    qed
  next
    assume "\<exists>a b. c # cs = a @ p @ b"
    then obtain a b where ab: "c # cs = a @ p @ b" by blast
    show "mentions p (c # cs)"
    proof (cases a)
      case Nil
      then have "HasPrefix (c # cs) p" using ab unfolding HasPrefix_iff by auto
      then show ?thesis by simp
    next
      case (Cons x a')
      then have "cs = a' @ p @ b" using ab by simp
      then have "mentions p cs" using Cons.IH by blast
      then show ?thesis by simp
    qed
  qed
qed

text \<open>The two messages about a file name its path.\<close>

lemma file_violation_mentions:
  "file_violation p e \<Longrightarrow> \<exists>msg. e = Fundamental msg \<and> mentions p msg"
  unfolding file_violation_def mentions_iff
  by (metis append_Nil2)

subsection \<open>The spec's scenario\<close>

text \<open>
  With \<^verbatim>\<open>vendor\<close> skipped and the suffix \<^verbatim>\<open>.go\<close> included, the one violation is
  \<^verbatim>\<open>b.go\<close>: \<^verbatim>\<open>README\<close> is not read, \<^verbatim>\<open>a.go\<close> passes, \<^verbatim>\<open>vendor/c.go\<close> is never visited.
\<close>

lemma scenario_report:
  "run (policy [''vendor''] [''.go''] [] copyright) (matching [''vendor'']) scenario_tree =
     \<lparr>errors = [Fundamental ''File b.go does not contain a license header''],
      reads = [''a.go'', ''b.go''],
      visited = [''.'', ''README'', ''a.go'', ''b.go'', ''vendor'']\<rparr>"
  by code_simp

text \<open>With the exclude suffix \<^verbatim>\<open>_test.go\<close>, a test file without header is not reported.\<close>

lemma scenario_test_file:
  "run (policy [] [''.go''] [''_test.go''] copyright) (matching [])
       (Directory ''.'' None [RegularFile ''foo_test.go'' (Inr ''package foo'')]) =
     \<lparr>errors = [], reads = [], visited = [''.'', ''foo_test.go'']\<rparr>"
  by code_simp

section \<open>The claims\<close>

text \<open>
  Claim C1: a file whose path a skipPaths pattern matches is skipped and never
  header-checked. The code does otherwise: the \<^verbatim>\<open>return nil\<close> under the comment
  \<^verbatim>\<open>skip single file\<close> stands inside the branch for directories, so a matched file falls
  through to the suffix and header checks. Here \<^verbatim>\<open>b.go\<close> is matched, has no header,
  and is reported.
\<close>

theorem path_matched_file_is_still_checked:
  "Relative (matching [''vendor'', ''b.go''] (pattern_buffer [''vendor'', ''b.go''])) ''b.go'' False \<and>
   run (policy [''vendor'', ''b.go''] [''.go''] [] copyright) (matching [''vendor'', ''b.go''])
       scenario_tree =
     \<lparr>errors = [Fundamental ''File b.go does not contain a license header''],
      reads = [''a.go'', ''b.go''],
      visited = [''.'', ''README'', ''a.go'', ''b.go'', ''vendor'']\<rparr>"
  by code_simp

text \<open>
  Claim C2: a checked file without the header gets exactly one violation, also when its
  name ends with several include suffixes. The code does otherwise: the loop over the
  include suffixes goes on after appending the violation, so \<^verbatim>\<open>b.go\<close> is read and
  reported once for \<^verbatim>\<open>.go\<close> and once more for \<^verbatim>\<open>go\<close>.
\<close>

theorem two_include_suffixes_two_violations:
  "run (policy [''vendor''] [''.go'', ''go''] [] copyright) (matching [''vendor'']) scenario_tree =
     \<lparr>errors = [Fundamental ''File b.go does not contain a license header'',
                Fundamental ''File b.go does not contain a license header''],
      reads = [''a.go'', ''a.go'', ''b.go'', ''b.go''],
      visited = [''.'', ''README'', ''a.go'', ''b.go'', ''vendor'']\<rparr>"
  by code_simp

text \<open>
  Claim C3, as stated: an empty header gives exactly one violation. It fails when the
  pattern library reports a parse error: the handler has appended that error before the
  header is looked at, and the report holds two errors.
\<close>

theorem empty_header_two_violations:
  "Header (policy [[CHR ''a'', CHR 0x0D, CHR ''b'']] [''.go''] [] []) = [] \<and>
   errors (run (policy [[CHR ''a'', CHR 0x0D, CHR ''b'']] [''.go''] [] [])
             (rejecting ''unexpected carriage return'') scenario_tree) =
     [Underlying ''unexpected carriage return'', Fundamental ''Header is not defined''] \<and>
   length (errors (run (policy [[CHR ''a'', CHR 0x0D, CHR ''b'']] [''.go''] [] [])
             (rejecting ''unexpected carriage return'') scenario_tree)) = 2"
  by code_simp

text \<open>
  Claim C3, amended: with an empty header the report holds the errors the pattern library
  reported for skipPaths, as they are, and then the one error that the header is not
  defined (so exactly one error when the patterns parse); no file is read and no entry
  of the tree is visited.
\<close>

theorem empty_header_report:
  assumes "Header l = []"
  shows "run l New tree =
           \<lparr>errors = map Underlying (reported (New (pattern_buffer (SkipPaths l)))) @
                       [Fundamental ''Header is not defined''],
            reads = [], visited = []\<rparr>"
  using assms by (simp add: run_def Let_def)

theorem empty_header_report_witness:
  "Header (policy [''vendor''] [''.go''] [] []) = [] \<and>
   run (policy [''vendor''] [''.go''] [] []) (matching [''vendor'']) scenario_tree =
     \<lparr>errors = [Fundamental ''Header is not defined''], reads = [], visited = []\<rparr>"
proof -
  have h: "Header (policy [''vendor''] [''.go''] [] []) = []"
    by (simp add: policy_def)
  show ?thesis
    using h empty_header_report [OF h, of "matching [''vendor'']" scenario_tree]
    by (simp add: matching_def)
qed

text \<open>
  Claim C4: a regular file that no path or suffix rule excludes, whose name ends with an
  include suffix and whose content starts with the header, gets no violation: its visit
  returns \<^verbatim>\<open>nil\<close> and leaves the errors as they were.
\<close>

theorem header_present_no_violation:
  assumes "\<not> matcher path False"
    and "\<not> (\<exists>s \<in> set (ExcludeSuffixes l). HasSuffix name s)"
    and "\<exists>s \<in> set (IncludeSuffixes l). HasSuffix name s"
    and "HasPrefix contents (Header l)"
  shows "fst (walk (walkFn l matcher) path (RegularFile name (Inr contents)) st) = Ok \<and>
         errors (snd (walk (walkFn l matcher) path (RegularFile name (Inr contents)) st)) =
           errors st"
  using assms
  by (simp add: walkFn_def skip_block_def excluded_iff check_included_header_present)

theorem header_present_no_violation_witness:
  "\<not> Relative (matching [''vendor''] []) ''a.go'' False \<and>
   \<not> (\<exists>s \<in> set (ExcludeSuffixes (policy [''vendor''] [''.go''] [''_test.go''] copyright)).
        HasSuffix ''a.go'' s) \<and>
   (\<exists>s \<in> set (IncludeSuffixes (policy [''vendor''] [''.go''] [''_test.go''] copyright)).
        HasSuffix ''a.go'' s) \<and>
   HasPrefix (copyright @ ''package a'') (Header (policy [''vendor''] [''.go''] [''_test.go''] copyright)) \<and>
   fst (walk (walkFn (policy [''vendor''] [''.go''] [''_test.go''] copyright)
               (Relative (matching [''vendor''] [])))
          ''a.go'' (RegularFile ''a.go'' (Inr (copyright @ ''package a''))) start) = Ok \<and>
   errors (snd (walk (walkFn (policy [''vendor''] [''.go''] [''_test.go''] copyright)
                       (Relative (matching [''vendor''] [])))
                  ''a.go'' (RegularFile ''a.go'' (Inr (copyright @ ''package a''))) start)) =
     errors start"
proof -
  let ?l = "policy [''vendor''] [''.go''] [''_test.go''] copyright"
  have h1: "\<not> Relative (matching [''vendor''] []) ''a.go'' False"
    by code_simp
  have h2: "\<not> (\<exists>s \<in> set (ExcludeSuffixes ?l). HasSuffix ''a.go'' s)"
    by code_simp
  have h3: "\<exists>s \<in> set (IncludeSuffixes ?l). HasSuffix ''a.go'' s"
    by code_simp
  have h4: "HasPrefix (copyright @ ''package a'') (Header ?l)"
    by code_simp
  show ?thesis
    using h1 h2 h3 h4
      header_present_no_violation
        [where matcher = "Relative (matching [''vendor''] [])" and path = "''a.go''" and st = start,
         OF h1 h2 h3 h4]
    by blast
qed

text \<open>
  Claim C5: a file whose name ends with an exclude suffix is never header-checked and
  gets no violation, also when the name ends with an include suffix: its visit reads
  nothing and appends nothing, whatever the include suffixes are.
\<close>

theorem exclude_suffix_wins:
  assumes "\<not> IsDir info" and "lstat info = None"
    and "\<exists>s \<in> set (ExcludeSuffixes l). HasSuffix (info_Name info) s"
  shows "walk (walkFn l matcher) path info st = (Ok, st\<lparr>visited := visited st @ [path]\<rparr>)"
  using assms
  by (cases info) (auto simp add: walkFn_def skip_block_def excluded_iff)

theorem exclude_suffix_wins_witness:
  "\<not> IsDir (RegularFile ''foo_test.go'' (Inr ''package foo'')) \<and>
   lstat (RegularFile ''foo_test.go'' (Inr ''package foo'')) = None \<and>
   (\<exists>s \<in> set (ExcludeSuffixes (policy [] [''.go''] [''_test.go''] copyright)).
      HasSuffix (info_Name (RegularFile ''foo_test.go'' (Inr ''package foo''))) s) \<and>
   (\<exists>s \<in> set (IncludeSuffixes (policy [] [''.go''] [''_test.go''] copyright)).
      HasSuffix (info_Name (RegularFile ''foo_test.go'' (Inr ''package foo''))) s) \<and>
   walk (walkFn (policy [] [''.go''] [''_test.go''] copyright) (Relative (matching [] [])))
     ''foo_test.go'' (RegularFile ''foo_test.go'' (Inr ''package foo'')) start =
     (Ok, start\<lparr>visited := visited start @ [''foo_test.go'']\<rparr>)"
proof -
  let ?l = "policy [] [''.go''] [''_test.go''] copyright"
  let ?info = "RegularFile ''foo_test.go'' (Inr ''package foo'')"
  have h1: "\<not> IsDir ?info"
    by simp
  have h2: "lstat ?info = None"
    by simp
  have h3: "\<exists>s \<in> set (ExcludeSuffixes ?l). HasSuffix (info_Name ?info) s"
    by code_simp
  have h4: "\<exists>s \<in> set (IncludeSuffixes ?l). HasSuffix (info_Name ?info) s"
    by code_simp
  show ?thesis
    using h1 h2 h3 h4
      exclude_suffix_wins
        [where matcher = "Relative (matching [] [])" and path = "''foo_test.go''" and st = start,
         OF h1 h2 h3]
    by blast
qed

text \<open>
  Claim C6: a directory whose path a skipPaths pattern matches is pruned: the walk of the
  directory visits the directory itself and nothing below it, so no descendant is read
  or reported, whatever the entries are. The walk function answers \<^verbatim>\<open>SkipDir\<close> (or
  hands back the error of reading the entries, which ends the walk).
\<close>

theorem matched_directory_pruned:
  assumes "matcher path True"
  shows "walk (walkFn l matcher) path (Directory name rd entries) st =
           (case rd of None \<Rightarrow> SkipDir | Some e \<Rightarrow> Failed e,
            st\<lparr>visited := visited st @ [path]\<rparr>)"
  using assms by (simp add: walkFn_matched_directory split: option.split)

theorem matched_directory_pruned_witness:
  "Relative (matching [''vendor''] (pattern_buffer [''vendor''])) ''vendor'' True \<and>
   walk (walkFn (policy [''vendor''] [''.go''] [] copyright)
           (Relative (matching [''vendor''] (pattern_buffer [''vendor'']))))
     ''vendor'' (Directory ''vendor'' None [RegularFile ''c.go'' (Inr ''package c'')]) start =
     (SkipDir, start\<lparr>visited := visited start @ [''vendor'']\<rparr>)"
proof -
  have h: "Relative (matching [''vendor''] (pattern_buffer [''vendor''])) ''vendor'' True"
    by code_simp
  show ?thesis
    using h
      matched_directory_pruned
        [where matcher = "Relative (matching [''vendor''] (pattern_buffer [''vendor'']))"
           and path = "''vendor''" and rd = None and st = start,
         OF h]
    by simp
qed

text \<open>
  Claim C7: \<^verbatim>\<open>Compliance\<close> returns a \<^verbatim>\<open>nil\<close> error for every options value, configuration,
  pattern library and tree, and every failure is an error of the one check in the
  returned report: each parse error of the pattern library; the missing header; the
  error that \<^verbatim>\<open>filepath.Walk\<close> returned; and, in a tree where no two entries share a
  path, for every visited entry the failed read of an included, not excluded file, the
  failed \<^verbatim>\<open>lstat\<close>, and the failed read of a directory.
\<close>

theorem Compliance_nil_error_failures_in_report:
  "snd (Compliance l options New tree) = None \<and>
   checks (fst (Compliance l options New tree)) = [ValidateLicenseHeader l New tree] \<and>
   (\<forall>t \<in> set (reported (New (pattern_buffer (SkipPaths l)))).
      Underlying t \<in> set (Errors (ValidateLicenseHeader l New tree))) \<and>
   (Header l = [] \<longrightarrow>
      Fundamental ''Header is not defined'' \<in> set (Errors (ValidateLicenseHeader l New tree))) \<and>
   (\<forall>e. Header l \<noteq> [] \<and> fst (walk_of_run l New tree) = Some e \<longrightarrow>
      Fundamental (''Failed to walk directory: '' @ error_text e)
        \<in> set (Errors (ValidateLicenseHeader l New tree))) \<and>
   (distinct (map fst (tree_paths ''.'' tree)) \<longrightarrow>
      (\<forall>p name e.
         (p, RegularFile name (Inl e)) \<in> set (tree_paths ''.'' tree) \<and>
         p \<in> set (visited (run l New tree)) \<and>
         \<not> (\<exists>s \<in> set (ExcludeSuffixes l). HasSuffix name s) \<and>
         (\<exists>s \<in> set (IncludeSuffixes l). HasSuffix name s) \<longrightarrow>
         Fundamental (''Failed to open '' @ p) \<in> set (Errors (ValidateLicenseHeader l New tree))) \<and>
      (\<forall>p name e.
         (p, LstatFails name e) \<in> set (tree_paths ''.'' tree) \<and>
         p \<in> set (visited (run l New tree)) \<longrightarrow>
         Fundamental (''Failed to walk directory: '' @ error_text e)
           \<in> set (Errors (ValidateLicenseHeader l New tree))) \<and>
      (\<forall>p name e entries.
         (p, Directory name (Some e) entries) \<in> set (tree_paths ''.'' tree) \<and>
         p \<in> set (visited (run l New tree)) \<longrightarrow>
         Fundamental (''Failed to walk directory: '' @ error_text e)
           \<in> set (Errors (ValidateLicenseHeader l New tree))))"
proof -
  have nil: "snd (Compliance l options New tree) = None"
    by (simp add: Compliance_def)
  have rep: "checks (fst (Compliance l options New tree)) = [ValidateLicenseHeader l New tree]"
    by (simp add: Compliance_def AddCheck_def)
  have E: "Errors (ValidateLicenseHeader l New tree) = errors (run l New tree)"
    by (simp add: ValidateLicenseHeader_def)
  have pat: "\<forall>t \<in> set (reported (New (pattern_buffer (SkipPaths l)))).
      Underlying t \<in> set (errors (run l New tree))"
    by (simp add: pattern_errors_in_run)
  have hdr: "Header l = [] \<longrightarrow> Fundamental ''Header is not defined'' \<in> set (errors (run l New tree))"
    using run_empty_header [of l New tree] by simp
  have wlk: "\<forall>e. Header l \<noteq> [] \<and> fst (walk_of_run l New tree) = Some e \<longrightarrow>
      Fundamental (''Failed to walk directory: '' @ error_text e) \<in> set (errors (run l New tree))"
    using walk_error_in_run [of l New tree] by blast
  show ?thesis
    unfolding E
    using nil rep pat hdr wlk
      unreadable_file_in_run [of tree _ _ _ l New]
      failed_lstat_in_run [of tree _ _ _ l New]
      unreadable_directory_in_run [of tree _ _ _ _ l New]
    by blast
qed

theorem Compliance_nil_error_failures_in_report_witness:
  "Header (policy [''vendor''] [''.go''] [] []) = [] \<and>
   snd (Compliance (policy [''vendor''] [''.go''] [] []) (None :: unit option)
          (matching [''vendor'']) scenario_tree) = None \<and>
   Fundamental ''Header is not defined''
     \<in> set (Errors (ValidateLicenseHeader (policy [''vendor''] [''.go''] [] [])
                      (matching [''vendor'']) scenario_tree)) \<and>
   distinct (map fst (tree_paths ''.'' unreadable_file_tree)) \<and>
   (''x.go'', RegularFile ''x.go'' (Inl (OsError ''open x.go: permission denied'')))
     \<in> set (tree_paths ''.'' unreadable_file_tree) \<and>
   ''x.go'' \<in> set (visited (run (policy [] [''.go''] [] copyright) (matching [])
                              unreadable_file_tree)) \<and>
   snd (Compliance (policy [] [''.go''] [] copyright) (None :: unit option) (matching [])
          unreadable_file_tree) = None \<and>
   Fundamental ''Failed to open x.go''
     \<in> set (Errors (ValidateLicenseHeader (policy [] [''.go''] [] copyright) (matching [])
                      unreadable_file_tree)) \<and>
   distinct (map fst (tree_paths ''.'' unreadable_directory_tree)) \<and>
   (''vendor'', Directory ''vendor'' (Some (OsError ''readdirent: input/output error'')) [])
     \<in> set (tree_paths ''.'' unreadable_directory_tree) \<and>
   ''vendor'' \<in> set (visited (run (policy [] [''.go''] [] copyright) (matching [])
                                unreadable_directory_tree)) \<and>
   snd (Compliance (policy [] [''.go''] [] copyright) (None :: unit option) (matching [])
          unreadable_directory_tree) = None \<and>
   Fundamental ''Failed to walk directory: readdirent: input/output error''
     \<in> set (Errors (ValidateLicenseHeader (policy [] [''.go''] [] copyright) (matching [])
                      unreadable_directory_tree)) \<and>
   distinct (map fst (tree_paths ''.'' vanished_entry_tree)) \<and>
   (''gone.go'', LstatFails ''gone.go'' (OsError ''lstat gone.go: no such file or directory''))
     \<in> set (tree_paths ''.'' vanished_entry_tree) \<and>
   ''gone.go'' \<in> set (visited (run (policy [] [''.go''] [] copyright) (matching [])
                                 vanished_entry_tree)) \<and>
   fst (walk_of_run (policy [] [''.go''] [] copyright) (matching []) vanished_entry_tree) =
     Some (OsError ''lstat gone.go: no such file or directory'') \<and>
   snd (Compliance (policy [] [''.go''] [] copyright) (None :: unit option) (matching [])
          vanished_entry_tree) = None \<and>
   Fundamental ''Failed to walk directory: lstat gone.go: no such file or directory''
     \<in> set (Errors (ValidateLicenseHeader (policy [] [''.go''] [] copyright) (matching [])
                      vanished_entry_tree)) \<and>
   ''unexpected carriage return''
     \<in> set (reported (rejecting ''unexpected carriage return''
                       (pattern_buffer (SkipPaths
                          (policy [[CHR ''a'', CHR 0x0D, CHR ''b'']] [''.go''] [] copyright))))) \<and>
   snd (Compliance (policy [[CHR ''a'', CHR 0x0D, CHR ''b'']] [''.go''] [] copyright)
          (None :: unit option) (rejecting ''unexpected carriage return'') scenario_tree) = None \<and>
   Underlying ''unexpected carriage return''
     \<in> set (Errors (ValidateLicenseHeader
                      (policy [[CHR ''a'', CHR 0x0D, CHR ''b'']] [''.go''] [] copyright)
                      (rejecting ''unexpected carriage return'') scenario_tree))"
proof -
  let ?h = "policy [''vendor''] [''.go''] [] []"
  let ?l = "policy [] [''.go''] [] copyright"
  let ?r = "policy [[CHR ''a'', CHR 0x0D, CHR ''b'']] [''.go''] [] copyright"
  let ?gone = "OsError ''lstat gone.go: no such file or directory''"
  note A = Compliance_nil_error_failures_in_report
             [of ?h "None :: unit option" "matching [''vendor'']" scenario_tree]
  note B = Compliance_nil_error_failures_in_report
             [of ?l "None :: unit option" "matching []" unreadable_file_tree]
  note C = Compliance_nil_error_failures_in_report
             [of ?l "None :: unit option" "matching []" unreadable_directory_tree]
  note D = Compliance_nil_error_failures_in_report
             [of ?l "None :: unit option" "matching []" vanished_entry_tree]
  note E = Compliance_nil_error_failures_in_report
             [of ?r "None :: unit option" "rejecting ''unexpected carriage return''" scenario_tree]
  have a1: "Header ?h = []"
    by (simp add: policy_def)
  have b1: "distinct (map fst (tree_paths ''.'' unreadable_file_tree))"
    by code_simp
  have b2: "(''x.go'', RegularFile ''x.go'' (Inl (OsError ''open x.go: permission denied'')))
              \<in> set (tree_paths ''.'' unreadable_file_tree)"
    by code_simp
  have b3: "''x.go'' \<in> set (visited (run ?l (matching []) unreadable_file_tree))"
    by code_simp
  have b4: "\<not> (\<exists>s \<in> set (ExcludeSuffixes ?l). HasSuffix ''x.go'' s)"
    by code_simp
  have b5: "\<exists>s \<in> set (IncludeSuffixes ?l). HasSuffix ''x.go'' s"
    by code_simp
  have c1: "distinct (map fst (tree_paths ''.'' unreadable_directory_tree))"
    by code_simp
  have c2: "(''vendor'', Directory ''vendor'' (Some (OsError ''readdirent: input/output error'')) [])
              \<in> set (tree_paths ''.'' unreadable_directory_tree)"
    by code_simp
  have c3: "''vendor'' \<in> set (visited (run ?l (matching []) unreadable_directory_tree))"
    by code_simp
  have d1: "distinct (map fst (tree_paths ''.'' vanished_entry_tree))"
    by code_simp
  have d2: "(''gone.go'', LstatFails ''gone.go'' ?gone) \<in> set (tree_paths ''.'' vanished_entry_tree)"
    by code_simp
  have d3: "''gone.go'' \<in> set (visited (run ?l (matching []) vanished_entry_tree))"
    by code_simp
  have d4: "fst (walk_of_run ?l (matching []) vanished_entry_tree) = Some ?gone"
    by code_simp
  have d5: "Header ?l \<noteq> []"
    by code_simp
  have e1: "''unexpected carriage return''
      \<in> set (reported (rejecting ''unexpected carriage return'' (pattern_buffer (SkipPaths ?r))))"
    by (simp add: rejecting_def)
  have ra: "snd (Compliance ?h (None :: unit option) (matching [''vendor'']) scenario_tree) = None \<and>
      Fundamental ''Header is not defined''
        \<in> set (Errors (ValidateLicenseHeader ?h (matching [''vendor'']) scenario_tree))"
    using A a1 by blast
  have "snd (Compliance ?l (None :: unit option) (matching []) unreadable_file_tree) = None \<and>
      Fundamental (''Failed to open '' @ ''x.go'')
        \<in> set (Errors (ValidateLicenseHeader ?l (matching []) unreadable_file_tree))"
    using B b1 b2 b3 b4 b5 by blast
  then have rb: "snd (Compliance ?l (None :: unit option) (matching []) unreadable_file_tree) = None \<and>
      Fundamental ''Failed to open x.go''
        \<in> set (Errors (ValidateLicenseHeader ?l (matching []) unreadable_file_tree))"
    by simp
  have "snd (Compliance ?l (None :: unit option) (matching []) unreadable_directory_tree) = None \<and>
      Fundamental (''Failed to walk directory: '' @
                   error_text (OsError ''readdirent: input/output error''))
        \<in> set (Errors (ValidateLicenseHeader ?l (matching []) unreadable_directory_tree))"
    using C c1 c2 c3 by blast
  then have rc: "snd (Compliance ?l (None :: unit option) (matching []) unreadable_directory_tree) = None \<and>
      Fundamental ''Failed to walk directory: readdirent: input/output error''
        \<in> set (Errors (ValidateLicenseHeader ?l (matching []) unreadable_directory_tree))"
    by simp
  have "snd (Compliance ?l (None :: unit option) (matching []) vanished_entry_tree) = None \<and>
      Fundamental (''Failed to walk directory: '' @ error_text ?gone)
        \<in> set (Errors (ValidateLicenseHeader ?l (matching []) vanished_entry_tree))"
    using D d1 d2 d3 by blast
  moreover have "Fundamental (''Failed to walk directory: '' @ error_text ?gone)
        \<in> set (Errors (ValidateLicenseHeader ?l (matching []) vanished_entry_tree))"
    using D d4 d5 by blast
  ultimately have rd: "snd (Compliance ?l (None :: unit option) (matching []) vanished_entry_tree) = None \<and>
      Fundamental ''Failed to walk directory: lstat gone.go: no such file or directory''
        \<in> set (Errors (ValidateLicenseHeader ?l (matching []) vanished_entry_tree))"
    by simp
  have re: "snd (Compliance ?r (None :: unit option) (rejecting ''unexpected carriage return'')
                   scenario_tree) = None \<and>
      Underlying ''unexpected carriage return''
        \<in> set (Errors (ValidateLicenseHeader ?r (rejecting ''unexpected carriage return'')
                         scenario_tree))"
    using E e1 by blast
  show ?thesis
    using a1 b1 b2 b3 c1 c2 c3 d1 d2 d3 d4 e1 ra rb rc rd re by blast
qed

text \<open>
  Claim C8: an included, not excluded regular file whose read fails gets exactly one
  read-failure error after a single read, and the loop over the entries of its directory
  goes on with the remaining entries from that state.
\<close>

theorem read_failure_reported_walk_continues:
  assumes "\<not> (\<exists>s \<in> set (ExcludeSuffixes l). HasSuffix name s)"
    and "\<exists>s \<in> set (IncludeSuffixes l). HasSuffix name s"
  shows "walk_names (walkFn l matcher) dir (RegularFile name (Inl e) # rest) st =
         walk_names (walkFn l matcher) dir rest
           (st\<lparr>visited := visited st @ [Join dir name],
               errors := errors st @ [Fundamental (''Failed to open '' @ Join dir name)],
               reads := reads st @ [Join dir name]\<rparr>)"
  using assms
  by (simp add: walkFn_def skip_block_def excluded_iff check_included_read_fails Let_def)

theorem read_failure_reported_walk_continues_witness:
  "\<not> (\<exists>s \<in> set (ExcludeSuffixes (policy [] [''.go''] [] copyright)). HasSuffix ''x.go'' s) \<and>
   (\<exists>s \<in> set (IncludeSuffixes (policy [] [''.go''] [] copyright)). HasSuffix ''x.go'' s) \<and>
   snd (walk_names (walkFn (policy [] [''.go''] [] copyright) (Relative (matching [] []))) ''.''
          [RegularFile ''x.go'' (Inl (OsError ''permission denied'')),
           RegularFile ''y.go'' (Inr ''package y'')] start) =
     \<lparr>errors = [Fundamental ''Failed to open x.go'',
                Fundamental ''File y.go does not contain a license header''],
      reads = [''x.go'', ''y.go''],
      visited = [''x.go'', ''y.go'']\<rparr>"
proof -
  let ?l = "policy [] [''.go''] [] copyright"
  let ?fn = "walkFn ?l (Relative (matching [] []))"
  let ?rest = "[RegularFile ''y.go'' (Inr ''package y'')]"
  have h1: "\<not> (\<exists>s \<in> set (ExcludeSuffixes ?l). HasSuffix ''x.go'' s)"
    by code_simp
  have h2: "\<exists>s \<in> set (IncludeSuffixes ?l). HasSuffix ''x.go'' s"
    by code_simp
  have step: "walk_names ?fn ''.'' (RegularFile ''x.go'' (Inl (OsError ''permission denied'')) # ?rest) start =
      walk_names ?fn ''.'' ?rest
        (start\<lparr>visited := visited start @ [Join ''.'' ''x.go''],
              errors := errors start @ [Fundamental (''Failed to open '' @ Join ''.'' ''x.go'')],
              reads := reads start @ [Join ''.'' ''x.go'']\<rparr>)"
    by (rule read_failure_reported_walk_continues [OF h1 h2])
  have rest: "snd (walk_names ?fn ''.'' ?rest
        (start\<lparr>visited := visited start @ [Join ''.'' ''x.go''],
              errors := errors start @ [Fundamental (''Failed to open '' @ Join ''.'' ''x.go'')],
              reads := reads start @ [Join ''.'' ''x.go'']\<rparr>)) =
     \<lparr>errors = [Fundamental ''Failed to open x.go'',
                Fundamental ''File y.go does not contain a license header''],
      reads = [''x.go'', ''y.go''],
      visited = [''x.go'', ''y.go'']\<rparr>"
    by code_simp
  show ?thesis
    using h1 h2 rest by (simp only: step) blast
qed

text \<open>
  Claim C9, as stated: every error in the report is a wrapped message that names the
  offending path, and no raw low-level error is passed through. It fails three times
  over. A parse error of the pattern library is appended as it is (line 84). When the
  entries of \<^verbatim>\<open>vendor\<close> cannot be read and the error of the directory read is a system
  call error, the message about the failed walk holds the text of that error and names
  no path of the tree. And the message that the header is not defined names no path.
\<close>

theorem report_errors_raw_or_without_path:
  "Errors (ValidateLicenseHeader (policy [[CHR ''a'', CHR 0x0D, CHR ''b'']] [''.go''] [] copyright)
             (rejecting ''unexpected carriage return'') scenario_tree) =
     [Underlying ''unexpected carriage return'',
      Fundamental ''File b.go does not contain a license header'',
      Fundamental ''File vendor/c.go does not contain a license header''] \<and>
   Errors (ValidateLicenseHeader (policy [] [''.go''] [] copyright) (matching [])
             unreadable_directory_tree) =
     [Fundamental ''Failed to walk directory: readdirent: input/output error''] \<and>
   list_all (\<lambda>p. \<not> mentions p ''Failed to walk directory: readdirent: input/output error'')
     (map fst (tree_paths ''.'' unreadable_directory_tree)) \<and>
   Errors (ValidateLicenseHeader (policy [''vendor''] [''.go''] [] []) (matching [''vendor''])
             scenario_tree) =
     [Fundamental ''Header is not defined''] \<and>
   list_all (\<lambda>p. \<not> mentions p ''Header is not defined'')
     (map fst (tree_paths ''.'' scenario_tree))"
  by code_simp

text \<open>
  Claim C9, amended: every error in the report is one of four kinds. (a) A parse error
  of the pattern library for skipPaths, passed through as it is. (b) With an empty
  header, the message that the header is not defined, which names no path. (c) A
  message made here that names a path that was read: the read failed, or the content
  lacks the header. (d) With a header, the message that the walk failed, made here
  around the text of the error that \<^verbatim>\<open>filepath.Walk\<close> returned; that error is the
  \<^verbatim>\<open>lstat\<close> error or the directory-read error of an entry that was visited, and the
  message names that entry's path only as far as the error's text does. An error of the
  file system is never passed through as it is.
\<close>

theorem report_errors_classified:
  "\<forall>e \<in> set (Errors (ValidateLicenseHeader l New tree)).
     (\<exists>t \<in> set (reported (New (pattern_buffer (SkipPaths l)))). e = Underlying t) \<or>
     (Header l = [] \<and> e = Fundamental ''Header is not defined'') \<or>
     (\<exists>p \<in> set (reads (run l New tree)). file_violation p e) \<or>
     (\<exists>x. Header l \<noteq> [] \<and> fst (walk_of_run l New tree) = Some x \<and>
          e = Fundamental (''Failed to walk directory: '' @ error_text x) \<and>
          (\<exists>(p, n) \<in> set (tree_paths ''.'' tree).
             p \<in> set (visited (run l New tree)) \<and> entry_error n = Some x))"
proof (cases "Header l = []")
  case True
  then show ?thesis by (auto simp add: ValidateLicenseHeader_def run_def Let_def)
next
  case False
  let ?pm = "New (pattern_buffer (SkipPaths l))"
  let ?check = "\<lparr>errors = map Underlying (reported ?pm), reads = [], visited = []\<rparr>"
  obtain err check1 where w: "walk_of_run l New tree = (err, check1)"
    by (cases "walk_of_run l New tree")
  have g: "grows ?check check1"
    using Walk_grows [of ?check "''.''" tree l "Relative ?pm"] w by (simp add: walk_of_run_def)
  note rw = run_by_walk_of_run [OF False, of New tree]
  have rd: "reads (run l New tree) = reads check1" using rw w by simp
  have E: "Errors (ValidateLicenseHeader l New tree) =
      errors check1 @ (case err of None \<Rightarrow> []
        | Some x \<Rightarrow> [Fundamental (''Failed to walk directory: '' @ error_text x)])"
    using rw w by (simp add: ValidateLicenseHeader_def)
  show ?thesis
  proof
    fix e
    assume m: "e \<in> set (Errors (ValidateLicenseHeader l New tree))"
    show "(\<exists>t \<in> set (reported ?pm). e = Underlying t) \<or>
     (Header l = [] \<and> e = Fundamental ''Header is not defined'') \<or>
     (\<exists>p \<in> set (reads (run l New tree)). file_violation p e) \<or>
     (\<exists>x. Header l \<noteq> [] \<and> fst (walk_of_run l New tree) = Some x \<and>
          e = Fundamental (''Failed to walk directory: '' @ error_text x) \<and>
          (\<exists>(p, n) \<in> set (tree_paths ''.'' tree).
             p \<in> set (visited (run l New tree)) \<and> entry_error n = Some x))"
    proof (cases "e \<in> set (errors check1)")
      case True
      then have "e \<in> set (errors ?check) \<or> (\<exists>p \<in> set (reads check1). file_violation p e)"
        using g unfolding grows_def by blast
      then show ?thesis using rd by auto
    next
      case nin: False
      then obtain x where x: "err = Some x"
        and ex: "e = Fundamental (''Failed to walk directory: '' @ error_text x)"
        using m E by (cases err) auto
      have f: "fst (walk_of_run l New tree) = Some x" using w x by simp
      from walk_of_run_failure_source [OF False f] False f ex
      show ?thesis by blast
    qed
  qed
qed

theorem report_errors_classified_witness:
  "Fundamental ''File b.go does not contain a license header''
     \<in> set (Errors (ValidateLicenseHeader (policy [''vendor''] [''.go''] [] copyright)
                      (matching [''vendor'']) scenario_tree)) \<and>
   (\<exists>p \<in> set (reads (run (policy [''vendor''] [''.go''] [] copyright)
                        (matching [''vendor'']) scenario_tree)).
      file_violation p (Fundamental ''File b.go does not contain a license header'')) \<and>
   Fundamental ''Failed to walk directory: readdirent: input/output error''
     \<in> set (Errors (ValidateLicenseHeader (policy [] [''.go''] [] copyright) (matching [])
                      unreadable_directory_tree)) \<and>
   (\<exists>x. fst (walk_of_run (policy [] [''.go''] [] copyright) (matching [])
                unreadable_directory_tree) = Some x \<and>
        error_text x = ''readdirent: input/output error'' \<and>
        (\<exists>(p, n) \<in> set (tree_paths ''.'' unreadable_directory_tree).
           p \<in> set (visited (run (policy [] [''.go''] [] copyright) (matching [])
                               unreadable_directory_tree)) \<and>
           entry_error n = Some x))"
proof -
  let ?e = "Fundamental ''File b.go does not contain a license header''"
  let ?l = "policy [''vendor''] [''.go''] [] copyright"
  let ?f = "Fundamental ''Failed to walk directory: readdirent: input/output error''"
  let ?k = "policy [] [''.go''] [] copyright"
  have m: "?e \<in> set (Errors (ValidateLicenseHeader ?l (matching [''vendor'']) scenario_tree))"
    by code_simp
  have "(\<exists>t \<in> set (reported (matching [''vendor''] (pattern_buffer (SkipPaths ?l)))). ?e = Underlying t) \<or>
     (Header ?l = [] \<and> ?e = Fundamental ''Header is not defined'') \<or>
     (\<exists>p \<in> set (reads (run ?l (matching [''vendor'']) scenario_tree)). file_violation p ?e) \<or>
     (\<exists>x. Header ?l \<noteq> [] \<and> fst (walk_of_run ?l (matching [''vendor'']) scenario_tree) = Some x \<and>
          ?e = Fundamental (''Failed to walk directory: '' @ error_text x) \<and>
          (\<exists>(p, n) \<in> set (tree_paths ''.'' scenario_tree).
             p \<in> set (visited (run ?l (matching [''vendor'']) scenario_tree)) \<and>
             entry_error n = Some x))"
    using report_errors_classified [of ?l "matching [''vendor'']" scenario_tree] m by blast
  then have one: "\<exists>p \<in> set (reads (run ?l (matching [''vendor'']) scenario_tree)). file_violation p ?e"
    by simp
  have n: "?f \<in> set (Errors (ValidateLicenseHeader ?k (matching []) unreadable_directory_tree))"
    by code_simp
  have "(\<exists>t \<in> set (reported (matching [] (pattern_buffer (SkipPaths ?k)))). ?f = Underlying t) \<or>
     (Header ?k = [] \<and> ?f = Fundamental ''Header is not defined'') \<or>
     (\<exists>p \<in> set (reads (run ?k (matching []) unreadable_directory_tree)). file_violation p ?f) \<or>
     (\<exists>x. Header ?k \<noteq> [] \<and> fst (walk_of_run ?k (matching []) unreadable_directory_tree) = Some x \<and>
          ?f = Fundamental (''Failed to walk directory: '' @ error_text x) \<and>
          (\<exists>(p, n) \<in> set (tree_paths ''.'' unreadable_directory_tree).
             p \<in> set (visited (run ?k (matching []) unreadable_directory_tree)) \<and>
             entry_error n = Some x))"
    using report_errors_classified [of ?k "matching []" unreadable_directory_tree] n by blast
  then have two: "\<exists>x. fst (walk_of_run ?k (matching []) unreadable_directory_tree) = Some x \<and>
        error_text x = ''readdirent: input/output error'' \<and>
        (\<exists>(p, n) \<in> set (tree_paths ''.'' unreadable_directory_tree).
           p \<in> set (visited (run ?k (matching []) unreadable_directory_tree)) \<and>
           entry_error n = Some x)"
    by (simp add: file_violation_def) (metis (no_types, lifting))
  from m one n two show ?thesis by blast
qed

text \<open>
  Claim C10: the report does not depend on the options argument: \<^verbatim>\<open>Compliance\<close> gives
  the same result for any two options values, \<^verbatim>\<open>nil\<close> included, with the configuration,
  the pattern library and the tree the same.
\<close>

theorem Compliance_ignores_options:
  "Compliance l options New tree = Compliance l options' New tree \<and>
   Compliance l options New tree = Compliance l None New tree"
  by (simp add: Compliance_def)

end
